theory Spec2Isabelle
  imports Main "HOL-Library.Sublist"
begin

section \<open>Python values used by the scripts\<close>

text \<open>
  A Python \<open>str\<close> is modelled as a \<open>string\<close>, a list of 8-bit characters: the model
  covers the strings whose code points are below 256. In that range the regular
  expression class \<open>\d\<close> of Python is exactly the ten ASCII digits, and the only letters
  that match an ASCII letter when case is ignored are ASCII letters. A Python \<open>bytes\<close>
  value is a list of bytes, again a \<open>string\<close>; the two are kept apart by the
  constructors of \<open>text_value\<close> below.
\<close>

type_synonym bytes = string

text \<open>
  The exceptions the scripts can meet, each with the text that \<open>str(e)\<close> gives.
  \<open>IMAP4_error\<close> stands for \<open>imaplib.IMAP4.error\<close> and its subclasses
  (\<open>abort\<close>, \<open>readonly\<close>), \<open>OSError\<close> for the socket and TLS errors, \<open>re_error\<close> for
  \<open>re.error\<close>.
\<close>

datatype exn =
    ValueError string
  | OverflowError string
  | IMAP4_error string
  | OSError string
  | LookupError string
  | UnicodeDecodeError string
  | TypeError string
  | AttributeError string
  | IndexError string
  | re_error string

fun str_exn :: "exn \<Rightarrow> string" where
  "str_exn (ValueError m) = m"
| "str_exn (OverflowError m) = m"
| "str_exn (IMAP4_error m) = m"
| "str_exn (OSError m) = m"
| "str_exn (LookupError m) = m"
| "str_exn (UnicodeDecodeError m) = m"
| "str_exn (TypeError m) = m"
| "str_exn (AttributeError m) = m"
| "str_exn (IndexError m) = m"
| "str_exn (re_error m) = m"

section \<open>Dates: \<open>datetime.strptime\<close>, \<open>strftime\<close> and \<open>timedelta(days=1)\<close>\<close>

text \<open>
  The formats of the program carry no time of day, so a \<open>datetime\<close> is its calendar date
  (hour, minute and second are always 0). Python compares two such values field by field,
  year first.
\<close>

record datetime =
  year :: nat
  month :: nat
  day :: nat

definition datetime_lt :: "datetime \<Rightarrow> datetime \<Rightarrow> bool" where
  "datetime_lt a b =
     (year a < year b \<or>
      (year a = year b \<and> (month a < month b \<or> (month a = month b \<and> day a < day b))))"

definition datetime_ge :: "datetime \<Rightarrow> datetime \<Rightarrow> bool" where
  "datetime_ge a b = (\<not> datetime_lt a b)"

definition is_leap :: "nat \<Rightarrow> bool" where
  "is_leap y = (y mod 4 = 0 \<and> (y mod 100 \<noteq> 0 \<or> y mod 400 = 0))"

definition days_in_month :: "nat \<Rightarrow> nat \<Rightarrow> nat" where
  "days_in_month y m =
     (if m = 2 then (if is_leap y then 29 else 28)
      else if m = 4 \<or> m = 6 \<or> m = 9 \<or> m = 11 then 30 else 31)"

definition MINYEAR :: nat where "MINYEAR = 1"
definition MAXYEAR :: nat where "MAXYEAR = 9999"

text \<open>The dates that \<open>datetime(year, month, day)\<close> accepts.\<close>

definition valid_datetime :: "datetime \<Rightarrow> bool" where
  "valid_datetime d =
     (MINYEAR \<le> year d \<and> year d \<le> MAXYEAR \<and> 1 \<le> month d \<and> month d \<le> 12 \<and>
      1 \<le> day d \<and> day d \<le> days_in_month (year d) (month d))"

text \<open>
  A format string is modelled in parsed form, over the directives the program uses:
  \<open>%d\<close>, \<open>%b\<close>, \<open>%Y\<close> and the literal hyphen. \<open>DATE_FORMAT\<close> is \<open>"%d-%b-%Y"\<close>.
\<close>

datatype fmt_item = Pct_d | Pct_b | Pct_Y | Hyphen

definition DATE_FORMAT :: "fmt_item list" where
  "DATE_FORMAT = [Pct_d, Hyphen, Pct_b, Hyphen, Pct_Y]"

definition month_abbr :: "string list" where
  "month_abbr = [''Jan'', ''Feb'', ''Mar'', ''Apr'', ''May'', ''Jun'',
                 ''Jul'', ''Aug'', ''Sep'', ''Oct'', ''Nov'', ''Dec'']"

definition a_month :: "string list" where
  "a_month = [''jan'', ''feb'', ''mar'', ''apr'', ''may'', ''jun'',
              ''jul'', ''aug'', ''sep'', ''oct'', ''nov'', ''dec'']"

definition is_digit :: "char \<Rightarrow> bool" where
  "is_digit c = (48 \<le> (of_char c :: nat) \<and> (of_char c :: nat) \<le> 57)"

definition digit_val :: "char \<Rightarrow> nat" where
  "digit_val c = of_char c - 48"

definition digit_char :: "nat \<Rightarrow> char" where
  "digit_char n = char_of (48 + n)"

definition lower_char :: "char \<Rightarrow> char" where
  "lower_char c =
     (if 65 \<le> (of_char c :: nat) \<and> (of_char c :: nat) \<le> 90
      then char_of ((of_char c :: nat) + 32) else c)"

text \<open>Python's \<open>int\<close> on the text matched by \<open>%d\<close> or \<open>%Y\<close>: leading blanks are
  skipped, the rest are decimal digits.\<close>

definition py_int :: "string \<Rightarrow> nat" where
  "py_int s = foldl (\<lambda>a c. 10 * a + digit_val c) 0 (dropWhile (\<lambda>c. c = CHR '' '') s)"

text \<open>
  \<open>strptime\<close> turns the format into a regular expression and matches it at the start of
  the data, ignoring case. The alternatives of a directive are tried in the order Python
  writes them; \<open>cands\<close> lists, in that order, the ways one item can match a prefix of the
  data: the matched text and what is left.
  \<^item> \<open>%d\<close> is \<open>3[0-1]|[1-2]\d|0[1-9]|[1-9]| [1-9]\<close>;
  \<^item> \<open>%b\<close> is one of the abbreviated month names;
  \<^item> \<open>%Y\<close> is \<open>\d\d\d\d\<close>.
\<close>

definition alt :: "nat \<Rightarrow> (string \<Rightarrow> bool) \<Rightarrow> string \<Rightarrow> (string \<times> string) list" where
  "alt n P s = (if n \<le> length s \<and> P (take n s) then [(take n s, drop n s)] else [])"

fun re_3_01 :: "string \<Rightarrow> bool" where
  "re_3_01 [a, b] = (a = CHR ''3'' \<and> (b = CHR ''0'' \<or> b = CHR ''1''))"
| "re_3_01 _ = False"

fun re_12_d :: "string \<Rightarrow> bool" where
  "re_12_d [a, b] = ((a = CHR ''1'' \<or> a = CHR ''2'') \<and> is_digit b)"
| "re_12_d _ = False"

fun re_0_19 :: "string \<Rightarrow> bool" where
  "re_0_19 [a, b] = (a = CHR ''0'' \<and> is_digit b \<and> b \<noteq> CHR ''0'')"
| "re_0_19 _ = False"

fun re_19 :: "string \<Rightarrow> bool" where
  "re_19 [b] = (is_digit b \<and> b \<noteq> CHR ''0'')"
| "re_19 _ = False"

fun re_sp_19 :: "string \<Rightarrow> bool" where
  "re_sp_19 [a, b] = (a = CHR '' '' \<and> is_digit b \<and> b \<noteq> CHR ''0'')"
| "re_sp_19 _ = False"

fun cands :: "fmt_item \<Rightarrow> string \<Rightarrow> (string \<times> string) list" where
  "cands Pct_d s =
     alt 2 re_3_01 s @ alt 2 re_12_d s @ alt 2 re_0_19 s @ alt 1 re_19 s @ alt 2 re_sp_19 s"
| "cands Pct_b s = alt 3 (\<lambda>t. map lower_char t \<in> set a_month) s"
| "cands Pct_Y s = alt 4 (list_all is_digit) s"
| "cands Hyphen s = alt 1 (\<lambda>t. t = ''-'') s"

text \<open>
  \<open>re_match\<close> lists every way the whole format matches a prefix of the data, in the order
  a backtracking matcher finds them, each with the text found for every item and the
  unmatched rest. Python takes the first.
\<close>

fun re_match :: "fmt_item list \<Rightarrow> string \<Rightarrow> ((fmt_item \<times> string) list \<times> string) list" where
  "re_match [] s = [([], s)]"
| "re_match (i # is) s =
     concat (map (\<lambda>(t, r). map (\<lambda>(found, r'). ((i, t) # found, r')) (re_match is r))
                 (cands i s))"

fun index_of :: "'a \<Rightarrow> 'a list \<Rightarrow> nat" where
  "index_of x [] = 0"
| "index_of x (y # ys) = (if x = y then 0 else Suc (index_of x ys))"

text \<open>
  \<open>datetime.strptime(data_string, format)\<close>. A directive used twice makes the regular
  expression define a group twice, which \<open>re\<close> refuses. A missing year, month or day
  defaults to 1900, 1 and 1. The date found is then built, which checks its range. The
  texts of the \<open>ValueError\<close>s are shortened: Python also quotes the data and the format.
\<close>

definition strptime :: "string \<Rightarrow> fmt_item list \<Rightarrow> exn + datetime" where
  "strptime data_string format =
     (if \<not> distinct (filter (\<lambda>i. i \<noteq> Hyphen) format)
      then Inl (re_error ''redefinition of group name'')
      else case re_match format data_string of
        [] \<Rightarrow> Inl (ValueError ''time data does not match format'')
      | (found, rest) # _ \<Rightarrow>
          if rest \<noteq> [] then Inl (ValueError ''unconverted data remains'')
          else
            let y = (case map_of found Pct_Y of None \<Rightarrow> 1900 | Some t \<Rightarrow> py_int t);
                m = (case map_of found Pct_b of None \<Rightarrow> 1
                     | Some t \<Rightarrow> Suc (index_of (map lower_char t) a_month));
                d = (case map_of found Pct_d of None \<Rightarrow> 1 | Some t \<Rightarrow> py_int t)
            in if y < MINYEAR then Inl (ValueError ''year 0 is out of range'')
               else if days_in_month y m < d
               then Inl (ValueError ''day is out of range for month'')
               else Inr \<lparr>year = y, month = m, day = d\<rparr>)"

text \<open>\<open>str(n)\<close>: a natural number in decimal, without leading zeros.\<close>

function str_nat :: "nat \<Rightarrow> string" where
  "str_nat n = (if n < 10 then [digit_char n] else str_nat (n div 10) @ [digit_char (n mod 10)])"
  by pat_completeness auto
termination
  by (relation "measure id") auto

text \<open>
  \<open>strftime\<close>: \<open>%d\<close> is the day on two digits and \<open>%b\<close> the abbreviated month name (in
  the C locale, as for \<open>strptime\<close>). Python hands \<open>%Y\<close> to the \<open>strftime\<close> of the C
  library, and the C libraries differ on years below 1000: glibc writes the year without
  leading zeros (\<open>999\<close>), others write four digits (\<open>0999\<close>). The first argument says
  which: \<open>True\<close> for four digits. From the year 1000 on the two agree.
\<close>

definition pad2 :: "nat \<Rightarrow> string" where
  "pad2 n = [digit_char (n div 10 mod 10), digit_char (n mod 10)]"

definition pad4 :: "nat \<Rightarrow> string" where
  "pad4 n = [digit_char (n div 1000 mod 10), digit_char (n div 100 mod 10),
             digit_char (n div 10 mod 10), digit_char (n mod 10)]"

fun render :: "bool \<Rightarrow> datetime \<Rightarrow> fmt_item \<Rightarrow> string" where
  "render padded d Pct_d = pad2 (day d)"
| "render padded d Pct_b = month_abbr ! (month d - 1)"
| "render padded d Pct_Y = (if padded then pad4 (year d) else str_nat (year d))"
| "render padded d Hyphen = ''-''"

definition strftime :: "bool \<Rightarrow> datetime \<Rightarrow> fmt_item list \<Rightarrow> string" where
  "strftime padded d format = concat (map (render padded d) format)"

text \<open>
  \<open>d + timedelta(days=1)\<close>: the next calendar day; past 31 December 9999 Python raises
  \<open>OverflowError\<close>.
\<close>

definition add_one_day :: "datetime \<Rightarrow> exn + datetime" where
  "add_one_day d =
     (if day d < days_in_month (year d) (month d)
      then Inr \<lparr>year = year d, month = month d, day = day d + 1\<rparr>
      else if month d < 12 then Inr \<lparr>year = year d, month = month d + 1, day = 1\<rparr>
      else if year d < MAXYEAR then Inr \<lparr>year = year d + 1, month = 1, day = 1\<rparr>
      else Inl (OverflowError ''date value out of range''))"

section \<open>The email searcher: \<open>validate_date_range\<close>\<close>

definition validate_date_range :: "string \<Rightarrow> string \<Rightarrow> fmt_item list \<Rightarrow> exn + unit" where
  "validate_date_range start_date end_date date_format =
     (case strptime start_date date_format of
        Inl e \<Rightarrow> Inl e
      | Inr start \<Rightarrow>
          (case strptime end_date date_format of
             Inl e \<Rightarrow> Inl e
           | Inr end \<Rightarrow>
               if datetime_ge start end
               then Inl (ValueError ''start_date must be before end_date'')
               else Inr ()))"

section \<open>The IMAP client library, the email parser and the logger\<close>

text \<open>
  The scripts talk to the mail server through \<open>imaplib\<close>, parse messages with \<open>email\<close>
  and report through \<open>logging\<close>. None of the three is code of the scripts. The model keeps
  what the scripts can observe: every call on a session is recorded, in order, in the
  field \<open>sent\<close> of the world, every log line in the field \<open>logged\<close>, and the answer to a
  call (a response \<open>(typ, data)\<close> or an exception) is given by the library \<open>lib\<close>, a
  parameter of every function, as a function of the calls made so far. The theorems hold
  for every library.
\<close>

datatype imap_session = IMAP4_SSL string

datatype command =
    CONNECT
  | LOGIN string string
  | SELECT string
  | SEARCH string
  | FETCH string string
  | LOGOUT

text \<open>An element of the \<open>data\<close> list of a response: \<open>None\<close>, a bytes value, or a tuple
  of bytes values.\<close>

datatype item = NoneItem | BytesItem bytes | TupleItem "bytes list"

type_synonym response = "string \<times> item list"

datatype level = INFO | WARNING | ERROR

record world =
  sent :: "(imap_session \<times> command) list"
  logged :: "(level \<times> string) list"

text \<open>
  A parsed message or message part: the headers the scripts read, and the sub-parts.
  \<open>subject\<close> and \<open>sender\<close> are \<open>msg["subject"]\<close> and \<open>msg["from"]\<close>, \<open>content_maintype\<close>
  is \<open>get_content_maintype()\<close>, \<open>content_disposition\<close> is \<open>get('Content-Disposition')\<close>
  and \<open>filename\<close> is \<open>get_filename()\<close>; \<open>None\<close> is an absent header.
\<close>

record headers =
  subject :: "string option"
  sender :: "string option"
  content_maintype :: string
  content_disposition :: "string option"
  filename :: "string option"

datatype message = Message (hdr: headers) (payload: "message list")

text \<open>\<open>Message.walk()\<close>: the message itself, then the walk of every sub-part, in order.\<close>

fun walk :: "message \<Rightarrow> message list" where
  "walk (Message h ps) = Message h ps # concat (map walk ps)"

datatype errors = strict | replace

text \<open>
  \<^item> \<open>imap\<close>: the answer of a session to a command, given the calls made before;
  \<^item> \<open>message_from_bytes\<close>: \<open>email.message_from_bytes\<close>;
  \<^item> \<open>header_text\<close>: \<open>str(make_header(decode_header(text)))\<close> on a bytes value; it may
    raise (CPython's \<open>decode_header\<close> raises \<open>TypeError\<close> on every bytes value);
  \<^item> \<open>bytes_decode\<close>: \<open>text.decode(charset, errors=...)\<close>, which raises \<open>LookupError\<close>
    on an unknown charset and \<open>UnicodeDecodeError\<close> on undecodable bytes in strict mode;
  \<^item> \<open>year_padded\<close>: whether the platform's \<open>strftime\<close> writes \<open>%Y\<close> on four digits.
\<close>

record pylib =
  imap :: "(imap_session \<times> command) list \<Rightarrow> imap_session \<Rightarrow> command \<Rightarrow> exn + response"
  message_from_bytes :: "bytes \<Rightarrow> message"
  header_text :: "bytes \<Rightarrow> exn + string"
  bytes_decode :: "bytes \<Rightarrow> string \<Rightarrow> errors \<Rightarrow> exn + string"
  year_padded :: bool

definition logging :: "level \<Rightarrow> string \<Rightarrow> world \<Rightarrow> world" where
  "logging l msg w = w\<lparr>logged := logged w @ [(l, msg)]\<rparr>"

text \<open>One call on a session: the command is recorded, then the library answers.\<close>

definition call ::
  "pylib \<Rightarrow> imap_session \<Rightarrow> command \<Rightarrow> world \<Rightarrow> (exn + response) \<times> world" where
  "call lib s c w = (imap lib (sent w) s c, w\<lparr>sent := sent w @ [(s, c)]\<rparr>)"

definition OK :: string where "OK = ''OK''"

definition dquote :: string where "dquote = [CHR 0x22]"

section \<open>The email searcher: \<open>search_emails\<close>\<close>

text \<open>\<open>bytes.split()\<close>: the runs of bytes between ASCII white space.\<close>

definition is_space :: "char \<Rightarrow> bool" where
  "is_space c = (c \<in> set [CHR '' '', CHR 0x09, CHR 0x0A, CHR 0x0B, CHR 0x0C, CHR 0x0D])"

fun split_from :: "bytes \<Rightarrow> bytes \<Rightarrow> bytes list" where
  "split_from cur [] = (if cur = [] then [] else [cur])"
| "split_from cur (c # cs) =
     (if is_space c then (if cur = [] then split_from [] cs else cur # split_from [] cs)
      else split_from (cur @ [c]) cs)"

definition split :: "bytes \<Rightarrow> bytes list" where
  "split b = split_from [] b"

text \<open>\<open>data[0].split()\<close>, with the exceptions of an empty list and of an element that
  is no bytes value.\<close>

definition data_0_split :: "item list \<Rightarrow> exn + bytes list" where
  "data_0_split data =
     (case data of
        [] \<Rightarrow> Inl (IndexError ''list index out of range'')
      | NoneItem # _ \<Rightarrow> Inl (AttributeError ''NoneType object has no attribute split'')
      | TupleItem _ # _ \<Rightarrow> Inl (AttributeError ''tuple object has no attribute split'')
      | BytesItem b # _ \<Rightarrow> Inr (split b))"

text \<open>The list comprehension \<open>[email_id.decode('utf-8') for email_id in ...]\<close>: the
  first identifier that does not decode raises.\<close>

fun decode_each :: "pylib \<Rightarrow> bytes list \<Rightarrow> exn + string list" where
  "decode_each lib [] = Inr []"
| "decode_each lib (b # bs) =
     (case bytes_decode lib b ''utf-8'' strict of
        Inl e \<Rightarrow> Inl e
      | Inr s \<Rightarrow> (case decode_each lib bs of Inl e \<Rightarrow> Inl e | Inr ss \<Rightarrow> Inr (s # ss)))"

definition search_query :: "string \<Rightarrow> string \<Rightarrow> string" where
  "search_query since_date before_date =
     ''(SINCE '' @ dquote @ since_date @ dquote @ '' BEFORE '' @ dquote @ before_date @ dquote @ '')''"

definition search_emails ::
  "pylib \<Rightarrow> imap_session \<Rightarrow> string \<Rightarrow> string \<Rightarrow> string \<Rightarrow> world
     \<Rightarrow> (exn + string list) \<times> world" where
  "search_emails lib imap_session mailbox start_date end_date w =
     (case validate_date_range start_date end_date DATE_FORMAT of
        Inl e \<Rightarrow> (Inl e, w)
      | Inr _ \<Rightarrow>
     (case call lib imap_session (SELECT mailbox) w of
        (Inl e, w1) \<Rightarrow> (Inl e, w1)
      | (Inr _, w1) \<Rightarrow>
     (case strptime start_date DATE_FORMAT of
        Inl e \<Rightarrow> (Inl e, w1)
      | Inr start \<Rightarrow>
     (case strptime end_date DATE_FORMAT of
        Inl e \<Rightarrow> (Inl e, w1)
      | Inr end \<Rightarrow>
     (case add_one_day end of
        Inl e \<Rightarrow> (Inl e, w1)
      | Inr before \<Rightarrow>
     (let since_date = strftime (year_padded lib) start DATE_FORMAT;
          before_date = strftime (year_padded lib) before DATE_FORMAT
      in case call lib imap_session (SEARCH (search_query since_date before_date)) w1 of
        (Inl e, w2) \<Rightarrow> (Inl e, w2)
      | (Inr (typ, data), w2) \<Rightarrow>
          if typ \<noteq> OK
          then (Inr [],
                logging ERROR (''Error searching Inbox. IMAP search did not return ''
                                 @ dquote @ ''OK'' @ dquote @ ''.'') w2)
          else (case data_0_split data of
                  Inl e \<Rightarrow> (Inl e, w2)
                | Inr ids \<Rightarrow> (decode_each lib ids, w2))))))))"

section \<open>The attachment scanner: \<open>decode_text\<close> and \<open>get_attachments_info\<close>\<close>

text \<open>The argument of \<open>decode_text\<close> is \<open>None\<close>, a bytes value or a string.\<close>

datatype text_value = Bytes bytes | Str string

definition decode_text ::
  "pylib \<Rightarrow> text_value option \<Rightarrow> string \<Rightarrow> world \<Rightarrow> (exn + string) \<times> world" where
  "decode_text lib text default_charset w =
     (case text of
        None \<Rightarrow>
          (Inr [], logging WARNING ''decode_text received None instead of string/bytes.'' w)
      | Some (Str s) \<Rightarrow> (Inr s, w)
      | Some (Bytes b) \<Rightarrow>
          (case header_text lib b of
             Inr s \<Rightarrow> (Inr s, w)
           | Inl e \<Rightarrow>
               (bytes_decode lib b default_charset replace,
                logging ERROR (''Error decoding text: '' @ str_exn e
                                 @ '', using default charset '' @ default_charset @ ''.'') w)))"

text \<open>\<open>file_name.endswith(file_extension)\<close>: an exact comparison of the last characters.\<close>

definition endswith :: "string \<Rightarrow> string \<Rightarrow> bool" where
  "endswith s suf = (length suf \<le> length s \<and> drop (length s - length suf) s = suf)"

text \<open>\<open>data[0][1]\<close> handed to \<open>email.message_from_bytes\<close>: the second component of the
  first element. On a bytes element the index gives an integer, which the parser refuses.\<close>

definition data_0_1 :: "item list \<Rightarrow> exn + bytes" where
  "data_0_1 data =
     (case data of
        [] \<Rightarrow> Inl (IndexError ''list index out of range'')
      | NoneItem # _ \<Rightarrow> Inl (TypeError ''NoneType object is not subscriptable'')
      | BytesItem b # _ \<Rightarrow>
          if 1 < length b then Inl (AttributeError ''int object has no attribute decode'')
          else Inl (IndexError ''index out of range'')
      | TupleItem t # _ \<Rightarrow>
          if 1 < length t then Inr (t ! 1) else Inl (IndexError ''tuple index out of range''))"

type_synonym attachment = "string \<times> string \<times> string"

text \<open>The body of the inner loop, for one part of the walk.\<close>

definition scan_part ::
  "pylib \<Rightarrow> string \<Rightarrow> string \<Rightarrow> string \<Rightarrow> message \<Rightarrow> attachment list \<Rightarrow> world
     \<Rightarrow> (exn + attachment list) \<times> world" where
  "scan_part lib subj frm file_extension part attachments_info w =
     (if content_maintype (hdr part) = ''multipart'' \<or> content_disposition (hdr part) = None
      then (Inr attachments_info, w)
      else case decode_text lib (map_option Str (filename (hdr part))) ''utf-8'' w of
             (Inl e, w1) \<Rightarrow> (Inl e, w1)
           | (Inr file_name, w1) \<Rightarrow>
               if file_name \<noteq> [] \<and> endswith file_name file_extension
               then (Inr (attachments_info @ [(subj, frm, file_name)]),
                     logging INFO (''Found attachment: '' @ file_name) w1)
               else (Inr attachments_info, w1))"

fun scan_parts ::
  "pylib \<Rightarrow> string \<Rightarrow> string \<Rightarrow> string \<Rightarrow> message list \<Rightarrow> attachment list \<Rightarrow> world
     \<Rightarrow> (exn + attachment list) \<times> world" where
  "scan_parts lib subj frm file_extension [] attachments_info w = (Inr attachments_info, w)"
| "scan_parts lib subj frm file_extension (part # parts) attachments_info w =
     (case scan_part lib subj frm file_extension part attachments_info w of
        (Inl e, w1) \<Rightarrow> (Inl e, w1)
      | (Inr acc, w1) \<Rightarrow> scan_parts lib subj frm file_extension parts acc w1)"

text \<open>The body of the outer loop, for one identifier.\<close>

definition scan_email ::
  "pylib \<Rightarrow> imap_session \<Rightarrow> string \<Rightarrow> string \<Rightarrow> attachment list \<Rightarrow> world
     \<Rightarrow> (exn + attachment list) \<times> world" where
  "scan_email lib imap_session file_extension email_id attachments_info w =
     (case call lib imap_session (FETCH email_id ''(RFC822)'')
             (logging INFO (''Processing email ID: '' @ email_id) w) of
        (Inl e, w1) \<Rightarrow> (Inl e, w1)
      | (Inr (typ, data), w1) \<Rightarrow>
          if typ \<noteq> OK
          then (Inr attachments_info,
                logging ERROR (''Failed to fetch email ID '' @ email_id @ ''.'') w1)
          else
     (case data_0_1 data of
        Inl e \<Rightarrow> (Inl e, w1)
      | Inr raw \<Rightarrow>
     (let email_message = message_from_bytes lib raw
      in case decode_text lib (map_option Str (subject (hdr email_message))) ''utf-8'' w1 of
        (Inl e, w2) \<Rightarrow> (Inl e, w2)
      | (Inr subj, w2) \<Rightarrow>
     (case decode_text lib (map_option Str (sender (hdr email_message))) ''utf-8'' w2 of
        (Inl e, w3) \<Rightarrow> (Inl e, w3)
      | (Inr frm, w3) \<Rightarrow>
          scan_parts lib subj frm file_extension (walk email_message) attachments_info w3))))"

fun scan_emails ::
  "pylib \<Rightarrow> imap_session \<Rightarrow> string \<Rightarrow> string list \<Rightarrow> attachment list \<Rightarrow> world
     \<Rightarrow> (exn + attachment list) \<times> world" where
  "scan_emails lib imap_session file_extension [] attachments_info w = (Inr attachments_info, w)"
| "scan_emails lib imap_session file_extension (email_id # email_ids) attachments_info w =
     (case scan_email lib imap_session file_extension email_id attachments_info w of
        (Inl e, w1) \<Rightarrow> (Inl e, w1)
      | (Inr acc, w1) \<Rightarrow> scan_emails lib imap_session file_extension email_ids acc w1)"

definition get_attachments_info ::
  "pylib \<Rightarrow> imap_session \<Rightarrow> string list \<Rightarrow> string \<Rightarrow> world
     \<Rightarrow> (exn + attachment list) \<times> world" where
  "get_attachments_info lib imap_session email_ids file_extension w =
     (case scan_emails lib imap_session file_extension email_ids [] w of
        (Inl e, w1) \<Rightarrow> (Inl e, w1)
      | (Inr attachments_info, w1) \<Rightarrow>
          (Inr attachments_info,
           logging INFO (''Completed processing emails. Found ''
                           @ str_nat (length attachments_info) @ '' attachments.'') w1))"

section \<open>The session manager: \<open>connect_to_imap_server\<close> and \<open>close_imap_session\<close>\<close>

text \<open>The handler \<open>except imaplib.IMAP4.error as e\<close>: it catches that class only.\<close>

definition except_IMAP4_error ::
  "exn \<Rightarrow> world \<Rightarrow> (exn + imap_session option) \<times> world" where
  "except_IMAP4_error e w =
     (case e of
        IMAP4_error m \<Rightarrow> (Inr None, logging ERROR (''IMAP login error: '' @ m) w)
      | _ \<Rightarrow> (Inl e, w))"

definition connect_to_imap_server ::
  "pylib \<Rightarrow> string \<Rightarrow> string \<Rightarrow> string \<Rightarrow> world \<Rightarrow> (exn + imap_session option) \<times> world" where
  "connect_to_imap_server lib server username password w =
     (let imap_session = IMAP4_SSL server
      in case call lib imap_session CONNECT w of
        (Inl e, w1) \<Rightarrow> except_IMAP4_error e w1
      | (Inr _, w1) \<Rightarrow>
     (case call lib imap_session (LOGIN username password) w1 of
        (Inl e, w2) \<Rightarrow> except_IMAP4_error e w2
      | (Inr (typ, account_details), w2) \<Rightarrow>
          if typ \<noteq> OK then (Inr None, logging ERROR ''Not able to sign in!'' w2)
          else (Inr (Some imap_session), logging INFO ''IMAP connection successful'' w2)))"

definition close_imap_session ::
  "pylib \<Rightarrow> imap_session option \<Rightarrow> world \<Rightarrow> (exn + unit) \<times> world" where
  "close_imap_session lib imap_session w =
     (case imap_session of
        None \<Rightarrow> (Inr (), w)
      | Some s \<Rightarrow>
          (case call lib s LOGOUT w of
             (Inl e, w1) \<Rightarrow> (Inl e, w1)
           | (Inr _, w1) \<Rightarrow> (Inr (), w1)))"

section \<open>The attachment rule of the specification\<close>

text \<open>
  The specification's rule for one part of a message, in its own words: a part is
  recorded when it is no multipart container, carries a content-disposition marker, and
  its file name is present and ends with the target extension (\<open>suffix\<close> is the exact,
  case-sensitive suffix relation on lists). \<open>spec_records_of\<close> lists the triples of a
  message in the order of its walk; \<open>text_of\<close> is the text of a header that is a string
  or absent.
\<close>

definition text_of :: "string option \<Rightarrow> string" where
  "text_of x = (case x of None \<Rightarrow> [] | Some s \<Rightarrow> s)"

definition spec_keeps :: "string \<Rightarrow> message \<Rightarrow> bool" where
  "spec_keeps ext p =
     (content_maintype (hdr p) \<noteq> ''multipart'' \<and> content_disposition (hdr p) \<noteq> None \<and>
      (case filename (hdr p) of None \<Rightarrow> False | Some f \<Rightarrow> f \<noteq> [] \<and> suffix ext f))"

definition spec_records_of :: "string \<Rightarrow> message \<Rightarrow> attachment list" where
  "spec_records_of ext m =
     map (\<lambda>p. (text_of (subject (hdr m)), text_of (sender (hdr m)), text_of (filename (hdr p))))
         (filter (spec_keeps ext) (walk m))"

section \<open>A library double for the examples\<close>

text \<open>
  A small, fixed library on which the theorems are tried. Its server holds three
  messages: message 1 carries \<open>invoice.pdf\<close>, the fetch of message 2 is refused, message 3
  carries \<open>report.pdf\<close>, \<open>photo.png\<close>, \<open>SCAN.PDF\<close> and a part with no file name. The
  mailbox \<open>Empty\<close> has no message, a search in the mailbox \<open>Broken\<close> is refused, the host
  \<open>unreachable.invalid\<close> cannot be reached, and the host \<open>flaky.example\<close> drops the
  connection at logout. Header decoding raises on bytes, as CPython does, and the year
  is written as glibc writes it. Of the codecs the double answers three questions only,
  each as Python does in either error mode: any data under \<open>latin-1\<close>, ASCII data under
  \<open>utf-8\<close>, and the name \<open>bogus\<close>, which Python does not know. Elsewhere its answer is
  left unspecified: Python's may hold the replacement character or other characters
  above 255, which the strings of the model do not have.
\<close>

definition plain_part :: headers where
  "plain_part = \<lparr>subject = None, sender = None, content_maintype = ''text'',
                  content_disposition = None, filename = None\<rparr>"

definition attached :: "string \<Rightarrow> string \<Rightarrow> message" where
  "attached maintype name =
     Message \<lparr>subject = None, sender = None, content_maintype = maintype,
              content_disposition = Some ''attachment'', filename = Some name\<rparr> []"

definition demo_message_1 :: message where
  "demo_message_1 =
     Message \<lparr>subject = Some ''Invoice March'', sender = Some ''billing@example.com'',
              content_maintype = ''multipart'', content_disposition = None, filename = None\<rparr>
       [Message plain_part [], attached ''application'' ''invoice.pdf'']"

definition demo_message_3 :: message where
  "demo_message_3 =
     Message \<lparr>subject = None, sender = Some ''team@example.com'',
              content_maintype = ''multipart'', content_disposition = None, filename = None\<rparr>
       [Message plain_part [],
        attached ''application'' ''report.pdf'',
        attached ''image'' ''photo.png'',
        attached ''application'' ''SCAN.PDF'',
        Message \<lparr>subject = None, sender = None, content_maintype = ''image'',
                 content_disposition = Some ''inline'', filename = None\<rparr> []]"

definition demo_message_from_bytes :: "bytes \<Rightarrow> message" where
  "demo_message_from_bytes raw =
     (if raw = ''MSG1'' then demo_message_1
      else if raw = ''MSG3'' then demo_message_3
      else Message plain_part [])"

fun selected :: "(imap_session \<times> command) list \<Rightarrow> string option" where
  "selected [] = None"
| "selected ((s, SELECT m) # cs) = (case selected cs of None \<Rightarrow> Some m | Some m' \<Rightarrow> Some m')"
| "selected (_ # cs) = selected cs"

fun demo_imap :: "(imap_session \<times> command) list \<Rightarrow> imap_session \<Rightarrow> command \<Rightarrow> exn + response" where
  "demo_imap h (IMAP4_SSL host) CONNECT =
     (if host = ''unreachable.invalid''
      then Inl (OSError ''[Errno -2] Name or service not known'')
      else Inr (''OK'', []))"
| "demo_imap h (IMAP4_SSL host) (LOGIN u p) =
     (if p = ''secret'' then Inr (''OK'', [BytesItem ''LOGIN completed''])
      else Inl (IMAP4_error ''[AUTHENTICATIONFAILED] Invalid credentials''))"
| "demo_imap h (IMAP4_SSL host) (SELECT m) = Inr (''OK'', [BytesItem ''3''])"
| "demo_imap h (IMAP4_SSL host) (SEARCH q) =
     (if selected h = Some ''Empty'' then Inr (''OK'', [BytesItem []])
      else if selected h = Some ''Broken'' then Inr (''NO'', [BytesItem ''SEARCH failed''])
      else Inr (''OK'', [BytesItem ''1 2 3'']))"
| "demo_imap h (IMAP4_SSL host) (FETCH i what) =
     (if i = ''1'' then Inr (''OK'', [TupleItem [''1 (RFC822 {4}'', ''MSG1''], BytesItem '')''])
      else if i = ''2'' then Inr (''NO'', [BytesItem ''FETCH failed''])
      else if i = ''3'' then Inr (''OK'', [TupleItem [''3 (RFC822 {4}'', ''MSG3''], BytesItem '')''])
      else Inr (''OK'', [NoneItem]))"
| "demo_imap h (IMAP4_SSL host) LOGOUT =
     (if host = ''flaky.example'' then Inl (IMAP4_error ''socket error: EOF'')
      else Inr (''BYE'', [BytesItem ''Logging out'']))"

definition demo_bytes_decode :: "bytes \<Rightarrow> string \<Rightarrow> errors \<Rightarrow> exn + string" where
  "demo_bytes_decode b charset errs =
     (if charset = ''latin-1'' then Inr b
      else if charset = ''utf-8'' \<and> list_all (\<lambda>c. (of_char c :: nat) < 128) b then Inr b
      else if charset = ''bogus'' then Inl (LookupError (''unknown encoding: '' @ charset))
      else undefined)"

definition demo_lib :: pylib where
  "demo_lib =
     \<lparr>imap = demo_imap,
      message_from_bytes = demo_message_from_bytes,
      header_text = (\<lambda>b. Inl (TypeError ''cannot use a string pattern on a bytes-like object'')),
      bytes_decode = demo_bytes_decode,
      year_padded = False\<rparr>"

definition w0 :: world where
  "w0 = \<lparr>sent = [], logged = []\<rparr>"

definition demo_session :: imap_session where
  "demo_session = IMAP4_SSL ''imap.example.com''"

text \<open>The errors of \<open>strptime\<close>: the data does not match the format, or matches it
  and names no date of the calendar.\<close>

definition parse_error :: "exn \<Rightarrow> bool" where
  "parse_error e = (e \<in> set [ValueError ''time data does not match format'',
       ValueError ''unconverted data remains'', ValueError ''year 0 is out of range'',
       ValueError ''day is out of range for month''])"

section \<open>Dates: a rendered date parses back\<close>

lemma of_char_digit_char: "n < 10 \<Longrightarrow> (of_char (digit_char n) :: nat) = 48 + n"
  by (simp add: digit_char_def)

lemma digit_val_digit_char: "n < 10 \<Longrightarrow> digit_val (digit_char n) = n"
  by (simp add: digit_val_def of_char_digit_char)

lemma digit_char_eq_iff: "n < 10 \<Longrightarrow> (digit_char n = c) = ((of_char c :: nat) = 48 + n)"
  by (auto simp: digit_char_def char_of_eq_iff take_bit_eq_mod)

lemma digits4:
  assumes "y < 10000"
  shows "10 * (10 * (10 * (y div 1000 mod 10) + y div 100 mod 10) + y div 10 mod 10) + y mod 10 = (y::nat)"
proof -
  define q1 where "q1 = y div 10"
  define q2 where "q2 = q1 div 10"
  define q3 where "q3 = q2 div 10"
  have e1: "y div 10 = q1" and e2: "y div 100 = q2" and e3: "y div 1000 = q3"
    by (simp_all add: q1_def q2_def q3_def div_mult2_eq)
  have a: "10 * q1 + y mod 10 = y" by (simp add: q1_def)
  have b: "10 * q2 + q1 mod 10 = q1" by (simp add: q2_def)
  have c: "10 * q3 + q2 mod 10 = q2" by (simp add: q3_def)
  have "q3 < 10" using assms less_mult_imp_div_less[of y 10 1000] e3 by simp
  hence d: "q3 mod 10 = q3" by simp
  show ?thesis unfolding e1 e2 e3 d c b a ..
qed

lemma py_int_digits4:
  assumes "a < 10" "b < 10" "c < 10" "d < 10"
  shows "py_int [digit_char a, digit_char b, digit_char c, digit_char d]
         = 10 * (10 * (10 * a + b) + c) + d"
  using assms by (simp add: py_int_def digit_val_digit_char digit_char_eq_iff)

lemma py_int_pad4:
  assumes "y < 10000"
  shows "py_int (pad4 y) = y"
proof -
  have "py_int (pad4 y) =
      10 * (10 * (10 * (y div 1000 mod 10) + y div 100 mod 10) + y div 10 mod 10) + y mod 10"
    unfolding pad4_def by (rule py_int_digits4) simp_all
  then show ?thesis using digits4[OF assms] by (simp only:)
qed

lemma py_int_pad2: "n < 100 \<Longrightarrow> py_int (pad2 n) = n"
  by (simp add: py_int_def pad2_def digit_val_digit_char digit_char_eq_iff)


lemma is_digit_digit_char: "n < 10 \<Longrightarrow> is_digit (digit_char n)"
  by (simp add: is_digit_def of_char_digit_char)

lemma month_cases:
  assumes "1 \<le> m" "m \<le> 12"
  shows "m = 1 \<or> m = 2 \<or> m = 3 \<or> m = 4 \<or> m = 5 \<or> m = 6 \<or> m = 7 \<or> m = 8 \<or> m = 9 \<or> m = 10 \<or> m = 11 \<or> m = (12::nat)"
  using assms by arith

lemma month_abbr_lower:
  assumes "1 \<le> m" "m \<le> 12"
  shows "length (month_abbr ! (m - 1)) = 3 \<and> map lower_char (month_abbr ! (m - 1)) = a_month ! (m - 1)"
  using month_cases[OF assms]
  by (elim disjE; simp add: month_abbr_def a_month_def lower_char_def char_of_eq_iff)

lemma index_of_a_month:
  assumes "1 \<le> m" "m \<le> 12"
  shows "Suc (index_of (a_month ! (m - 1)) a_month) = m"
  using month_cases[OF assms]
  by (elim disjE; simp add: a_month_def)

lemma a_month_nth_mem: 
  assumes "1 \<le> m" "m \<le> 12"
  shows "a_month ! (m - 1) \<in> set a_month"
proof (rule nth_mem)
  show "m - 1 < length a_month" using assms by (simp add: a_month_def)
qed

lemma cands_Y: "y < 10000 \<Longrightarrow> cands Pct_Y (pad4 y @ r) = [(pad4 y, r)]"
  by (simp add: alt_def pad4_def is_digit_digit_char)

lemma cands_Hyphen: "cands Hyphen (CHR ''-'' # r) = [(''-'', r)]"
  by (simp add: alt_def)

lemma cands_b:
  assumes "length mon = 3" "map lower_char mon \<in> set a_month"
  shows "cands Pct_b (mon @ r) = [(mon, r)]"
  using assms by (simp add: alt_def)

lemma cands_d_small:
  assumes "1 \<le> n" "n < 10"
  shows "cands Pct_d (pad2 n @ r) = (pad2 n, r) # alt 1 re_19 (pad2 n @ r) @ alt 2 re_sp_19 (pad2 n @ r)"
  using assms by (simp add: alt_def pad2_def is_digit_digit_char digit_char_eq_iff)

lemma cands_d_mid:
  assumes "10 \<le> n" "n < 30"
  shows "cands Pct_d (pad2 n @ r) = (pad2 n, r) # alt 2 re_0_19 (pad2 n @ r) @ alt 1 re_19 (pad2 n @ r) @ alt 2 re_sp_19 (pad2 n @ r)"
proof -
  have "n div 10 = 1 \<or> n div 10 = 2" using assms by arith
  then show ?thesis
    by (auto simp add: alt_def pad2_def is_digit_digit_char digit_char_eq_iff)
qed

lemma cands_d_high:
  assumes "30 \<le> n" "n \<le> 31"
  shows "cands Pct_d (pad2 n @ r) = (pad2 n, r) # alt 2 re_12_d (pad2 n @ r) @ alt 2 re_0_19 (pad2 n @ r) @ alt 1 re_19 (pad2 n @ r) @ alt 2 re_sp_19 (pad2 n @ r)"
proof -
  have "n = 30 \<or> n = 31" using assms by arith
  then show ?thesis
    by (auto simp add: alt_def pad2_def is_digit_digit_char digit_char_eq_iff)
qed

lemma cands_d:
  assumes "1 \<le> n" "n \<le> 31"
  shows "\<exists>more. cands Pct_d (pad2 n @ r) = (pad2 n, r) # more"
proof -
  consider "n < 10" | "10 \<le> n" "n < 30" | "30 \<le> n" by arith
  then show ?thesis
  proof cases
    case 1 then show ?thesis using cands_d_small[OF assms(1)] by blast
  next
    case 2 then show ?thesis using cands_d_mid by blast
  next
    case 3 then show ?thesis using cands_d_high[OF _ assms(2)] by blast
  qed
qed

lemma re_match_tail:
  assumes "length mon = 3" "map lower_char mon \<in> set a_month" "y < 10000"
  shows "re_match [Hyphen, Pct_b, Hyphen, Pct_Y] (CHR ''-'' # mon @ CHR ''-'' # pad4 y)
         = [([(Hyphen, ''-''), (Pct_b, mon), (Hyphen, ''-''), (Pct_Y, pad4 y)], [])]"
  using cands_Y[OF assms(3), of "[]"]
  by (simp add: cands_Hyphen cands_b[OF assms(1,2)] del: cands.simps)

lemma re_match_DATE_FORMAT:
  assumes "1 \<le> n" "n \<le> 31" "length mon = 3" "map lower_char mon \<in> set a_month" "y < 10000"
  shows "\<exists>more. re_match DATE_FORMAT (pad2 n @ CHR ''-'' # mon @ CHR ''-'' # pad4 y)
         = ([(Pct_d, pad2 n), (Hyphen, ''-''), (Pct_b, mon), (Hyphen, ''-''), (Pct_Y, pad4 y)], []) # more"
proof -
  obtain more where c: "cands Pct_d (pad2 n @ CHR ''-'' # mon @ CHR ''-'' # pad4 y) = (pad2 n, CHR ''-'' # mon @ CHR ''-'' # pad4 y) # more"
    using cands_d[OF assms(1,2)] by blast
  show ?thesis
    unfolding DATE_FORMAT_def re_match.simps(2)[of Pct_d] c
    by (simp add: re_match_tail[OF assms(3-5)] del: re_match.simps)
qed

lemma days_in_month_le: "days_in_month y m \<le> 31"
  by (simp add: days_in_month_def)

declare str_nat.simps [simp del]

lemma strftime_DATE_FORMAT:
  "strftime p d DATE_FORMAT =
     pad2 (day d) @ CHR ''-'' # month_abbr ! (month d - 1) @ CHR ''-'' #
       (if p then pad4 (year d) else str_nat (year d))"
  by (simp add: strftime_def DATE_FORMAT_def)

lemma str_nat_digit: "n < 10 \<Longrightarrow> str_nat n = [digit_char n]"
  by (simp add: str_nat.simps[of n])

lemma str_nat_step: "10 \<le> n \<Longrightarrow> str_nat n = str_nat (n div 10) @ [digit_char (n mod 10)]"
  by (simp add: str_nat.simps[of n])

lemma str_nat_pad4:
  assumes "1000 \<le> y" "y < 10000"
  shows "str_nat y = pad4 y"
proof -
  have a: "y div 10 div 10 = y div 100" "y div 100 div 10 = y div 1000"
    by (simp_all add: div_mult2_eq)
  have b: "10 \<le> y" "10 \<le> y div 10" "10 \<le> y div 100" "y div 1000 < 10"
    using assms by simp_all
  have c: "y div 1000 mod 10 = y div 1000" using b(4) by simp
  have "str_nat y = str_nat (y div 10) @ [digit_char (y mod 10)]"
    by (rule str_nat_step[OF b(1)])
  also have "str_nat (y div 10) = str_nat (y div 100) @ [digit_char (y div 10 mod 10)]"
    using str_nat_step[OF b(2)] by (simp add: a)
  also have "str_nat (y div 100) = str_nat (y div 1000) @ [digit_char (y div 100 mod 10)]"
    using str_nat_step[OF b(3)] by (simp add: a)
  also have "str_nat (y div 1000) = [digit_char (y div 1000)]"
    by (rule str_nat_digit[OF b(4)])
  finally show ?thesis by (simp add: pad4_def c)
qed

lemma str_nat_digits: "str_nat n \<noteq> [] \<and> list_all is_digit (str_nat n)"
proof (induction n rule: str_nat.induct)
  case (1 n)
  show ?case
  proof (cases "n < 10")
    case True
    then show ?thesis by (simp add: str_nat_digit is_digit_digit_char)
  next
    case False
    with 1 show ?thesis by (simp add: str_nat_step is_digit_digit_char)
  qed
qed

lemma digits_value_str_nat: "foldl (\<lambda>a c. 10 * a + digit_val c) 0 (str_nat n) = n"
proof (induction n rule: str_nat.induct)
  case (1 n)
  show ?case
  proof (cases "n < 10")
    case True
    then show ?thesis by (simp add: str_nat_digit digit_val_digit_char)
  next
    case False
    with 1 show ?thesis by (simp add: str_nat_step digit_val_digit_char)
  qed
qed

lemma py_int_str_nat: "py_int (str_nat n) = n"
proof -
  obtain c cs where s: "str_nat n = c # cs" and d: "is_digit c"
    using str_nat_digits[of n] by (cases "str_nat n") auto
  have "c \<noteq> CHR '' ''" using d by (auto simp: is_digit_def)
  then have "dropWhile (\<lambda>c. c = CHR '' '') (str_nat n) = str_nat n" by (simp add: s)
  then show ?thesis by (simp add: py_int_def digits_value_str_nat)
qed

lemma py_int_year_text:
  assumes "y < 10000"
  shows "py_int (if p then pad4 y else str_nat y) = y"
  using assms by (simp add: py_int_pad4 py_int_str_nat)

lemma strptime_strftime:
  assumes "valid_datetime d" "p \<or> 1000 \<le> year d"
  shows "strptime (strftime p d DATE_FORMAT) DATE_FORMAT = Inr d"
proof -
  define mon where "mon = month_abbr ! (month d - 1)"
  have n: "1 \<le> day d" "day d \<le> 31" and m: "1 \<le> month d" "month d \<le> 12" and y: "year d < 10000" "MINYEAR \<le> year d"
    and dm: "day d \<le> days_in_month (year d) (month d)"
    using assms(1) days_in_month_le[of "year d" "month d"] by (auto simp: valid_datetime_def MAXYEAR_def)
  have mon: "length mon = 3" "map lower_char mon = a_month ! (month d - 1)"
    using month_abbr_lower[OF m] by (simp_all add: mon_def)
  have mem: "map lower_char mon \<in> set a_month"
    unfolding mon(2) by (rule a_month_nth_mem[OF m])
  have s: "strftime p d DATE_FORMAT = pad2 (day d) @ CHR ''-'' # mon @ CHR ''-'' # pad4 (year d)"
    using assms(2) y(1) by (auto simp: strftime_DATE_FORMAT mon_def str_nat_pad4)
  obtain more where r: "re_match DATE_FORMAT (strftime p d DATE_FORMAT) = ([(Pct_d, pad2 (day d)), (Hyphen, ''-''), (Pct_b, mon), (Hyphen, ''-''), (Pct_Y, pad4 (year d))], []) # more"
    unfolding s using re_match_DATE_FORMAT[OF n mon(1) mem y(1)] by blast
  have dist: "distinct (filter (\<lambda>i. i \<noteq> Hyphen) DATE_FORMAT)" by (simp add: DATE_FORMAT_def)
  have i: "Suc (index_of (map lower_char mon) a_month) = month d"
    unfolding mon(2) by (rule index_of_a_month[OF m])
  have py: "py_int (pad4 (year d)) = year d" "py_int (pad2 (day d)) = day d"
    using y n by (simp_all add: py_int_pad4 py_int_pad2)
  show ?thesis
    unfolding strptime_def r using dist y dm
    by (simp add: i py)
qed

section \<open>Dates: what \<open>strptime\<close> returns is a date of the calendar\<close>

lemma is_digit_val: "is_digit c \<Longrightarrow> digit_val c \<le> 9 \<and> c \<noteq> CHR '' ''"
  by (auto simp: is_digit_def digit_val_def)

lemma is_digit_nonzero: "is_digit c \<Longrightarrow> c \<noteq> CHR ''0'' \<Longrightarrow> 1 \<le> digit_val c"
proof -
  assume a: "is_digit c" "c \<noteq> CHR ''0''"
  have "(of_char c :: nat) \<noteq> 48"
  proof
    assume "(of_char c :: nat) = 48"
    then have "char_of (of_char c :: nat) = char_of (48::nat)" by simp
    then have "c = CHR ''0''" by (simp add: char_of_eq_iff)
    with a show False by simp
  qed
  with a show ?thesis unfolding is_digit_def digit_val_def by linarith
qed

lemma digit_val_0: "digit_val CHR ''0'' = 0"
  by (simp add: digit_val_def)

lemma alt_mem: "(t, r) \<in> set (alt n P s) \<Longrightarrow> P t \<and> s = t @ r"
  by (auto simp: alt_def split: if_splits)

lemma cands_d_range:
  assumes "(t, r) \<in> set (cands Pct_d s)"
  shows "1 \<le> py_int t \<and> py_int t \<le> 31"
proof -
  from assms consider "re_3_01 t" | "re_12_d t" | "re_0_19 t" | "re_19 t" | "re_sp_19 t"
    by (auto dest: alt_mem)
  then show ?thesis
  proof cases
    case 1
    then show ?thesis by (auto elim!: re_3_01.elims simp: py_int_def digit_val_def)
  next
    case 2
    then obtain a b where t: "t = [a, b]" and a: "a = CHR ''1'' \<or> a = CHR ''2''" and b: "is_digit b"
      by (auto elim!: re_12_d.elims)
    from a is_digit_val[OF b] show ?thesis unfolding t by (auto simp: py_int_def digit_val_def)
  next
    case 3
    then obtain b where t: "t = [CHR ''0'', b]" and b: "is_digit b" "b \<noteq> CHR ''0''"
      by (auto elim!: re_0_19.elims)
    from is_digit_val[OF b(1)] is_digit_nonzero[OF b] show ?thesis
      unfolding t by (simp add: py_int_def digit_val_0)
  next
    case 4
    then obtain b where t: "t = [b]" and b: "is_digit b" "b \<noteq> CHR ''0''"
      by (auto elim!: re_19.elims)
    from is_digit_val[OF b(1)] is_digit_nonzero[OF b] show ?thesis
      unfolding t by (simp add: py_int_def)
  next
    case 5
    then obtain b where t: "t = [CHR '' '', b]" and b: "is_digit b" "b \<noteq> CHR ''0''"
      by (auto elim!: re_sp_19.elims)
    from is_digit_val[OF b(1)] is_digit_nonzero[OF b] show ?thesis
      unfolding t by (simp add: py_int_def)
  qed
qed

lemma index_of_less: "x \<in> set xs \<Longrightarrow> index_of x xs < length xs"
  by (induction xs) auto

lemma cands_b_range:
  assumes "(t, r) \<in> set (cands Pct_b s)"
  shows "Suc (index_of (map lower_char t) a_month) \<le> 12"
proof -
  from assms have "map lower_char t \<in> set a_month" by (auto dest: alt_mem)
  from index_of_less[OF this] show ?thesis by (simp add: a_month_def)
qed

lemma cands_Y_range:
  assumes "(t, r) \<in> set (cands Pct_Y s)"
  shows "py_int t \<le> 9999"
proof -
  from assms have d: "list_all is_digit t" and l: "length t = 4"
    by (auto simp: alt_def split: if_splits)
  from l obtain a b c e where t: "t = [a, b, c, e]"
    by (auto simp: length_Suc_conv numeral_eq_Suc)
  from d have "digit_val a \<le> 9" "digit_val b \<le> 9" "digit_val c \<le> 9" "digit_val e \<le> 9" "a \<noteq> CHR '' ''"
    unfolding t by (auto dest: is_digit_val)
  then show ?thesis unfolding t by (simp add: py_int_def)
qed

lemma re_match_DATE_FORMAT_found:
  assumes "(found, rest) \<in> set (re_match DATE_FORMAT s)"
  shows "\<exists>t1 r1 s1 h1 t2 r2 s2 h2 t3 r3 s3.
           found = [(Pct_d, t1), (Hyphen, h1), (Pct_b, t2), (Hyphen, h2), (Pct_Y, t3)] \<and>
           (t1, r1) \<in> set (cands Pct_d s1) \<and> (t2, r2) \<in> set (cands Pct_b s2) \<and>
           (t3, r3) \<in> set (cands Pct_Y s3)"
  using assms unfolding DATE_FORMAT_def
  by (fastforce simp del: cands.simps)

lemma strptime_valid:
  assumes "strptime s DATE_FORMAT = Inr d"
  shows "valid_datetime d"
proof -
  have dist: "distinct (filter (\<lambda>i. i \<noteq> Hyphen) DATE_FORMAT)" by (simp add: DATE_FORMAT_def)
  from assms obtain found more where m: "re_match DATE_FORMAT s = (found, []) # more"
    unfolding strptime_def using dist by (auto split: list.splits if_splits)
  then have "(found, []) \<in> set (re_match DATE_FORMAT s)" by simp
  from re_match_DATE_FORMAT_found[OF this] obtain t1 r1 s1 h1 t2 r2 s2 h2 t3 r3 s3 where
    f: "found = [(Pct_d, t1), (Hyphen, h1), (Pct_b, t2), (Hyphen, h2), (Pct_Y, t3)]"
    and c: "(t1, r1) \<in> set (cands Pct_d s1)" "(t2, r2) \<in> set (cands Pct_b s2)"
           "(t3, r3) \<in> set (cands Pct_Y s3)"
    by blast
  from assms show ?thesis
    unfolding strptime_def m f using dist cands_d_range[OF c(1)] cands_b_range[OF c(2)] cands_Y_range[OF c(3)]
    by (auto simp: valid_datetime_def MAXYEAR_def Let_def split: if_splits)
qed

lemma strptime_error:
  assumes "strptime s DATE_FORMAT = Inl e"
  shows "parse_error e"
proof -
  have dist: "distinct (filter (\<lambda>i. i \<noteq> Hyphen) DATE_FORMAT)" by (simp add: DATE_FORMAT_def)
  from assms show ?thesis
  unfolding strptime_def parse_error_def using dist by (auto simp: Let_def split: list.splits if_splits)
qed

section \<open>Dates: the next calendar day\<close>

lemma add_one_day_cases:
  assumes "add_one_day d = Inr b"
  shows "(day d < days_in_month (year d) (month d) \<and> year b = year d \<and> month b = month d \<and> day b = day d + 1) \<or>
         (\<not> day d < days_in_month (year d) (month d) \<and> month d < 12 \<and> year b = year d \<and> month b = month d + 1 \<and> day b = 1) \<or>
         (\<not> day d < days_in_month (year d) (month d) \<and> \<not> month d < 12 \<and> year d < MAXYEAR \<and> year b = year d + 1 \<and> month b = 1 \<and> day b = 1)"
proof (cases "day d < days_in_month (year d) (month d)")
  case True
  with assms have "b = \<lparr>year = year d, month = month d, day = day d + 1\<rparr>"
    by (simp add: add_one_day_def)
  with True show ?thesis by simp
next
  case False
  note F = this
  show ?thesis
  proof (cases "month d < 12")
    case True
    with F assms have "b = \<lparr>year = year d, month = month d + 1, day = 1\<rparr>"
      by (simp add: add_one_day_def)
    with F True show ?thesis by simp
  next
    case False
    with F assms have "year d < MAXYEAR \<and> b = \<lparr>year = year d + 1, month = 1, day = 1\<rparr>"
      by (simp add: add_one_day_def split: if_splits)
    with F False show ?thesis by simp
  qed
qed

lemma add_one_day_later: "add_one_day d = Inr b \<Longrightarrow> datetime_lt d b"
  using add_one_day_cases[of d b] unfolding datetime_lt_def by linarith

lemma add_one_day_next:
  assumes "add_one_day d = Inr b" "valid_datetime x" "valid_datetime d" "datetime_lt d x"
  shows "\<not> datetime_lt x b"
proof -
  have x: "1 \<le> day x" "1 \<le> month x" "month x \<le> 12" "day x \<le> days_in_month (year x) (month x)"
    using assms(2) by (simp_all add: valid_datetime_def)
  have "month x = month d \<Longrightarrow> year x = year d \<Longrightarrow> day x \<le> days_in_month (year d) (month d)"
    using x(4) by simp
  then show ?thesis
    using add_one_day_cases[OF assms(1)] assms(4) x(1-3) unfolding datetime_lt_def
    by (elim disjE conjE) auto
qed

lemma days_in_month_pos: "0 < days_in_month y m"
  by (simp add: days_in_month_def)

lemma add_one_day_valid:
  assumes "valid_datetime d" "add_one_day d = Inr b"
  shows "valid_datetime b"
proof -
  have d: "MINYEAR \<le> year d" "year d \<le> MAXYEAR" "1 \<le> month d" "month d \<le> 12" "1 \<le> day d"
    using assms(1) by (simp_all add: valid_datetime_def)
  from add_one_day_cases[OF assms(2)] show ?thesis
  proof (elim disjE conjE)
    assume "day d < days_in_month (year d) (month d)" "year b = year d" "month b = month d" "day b = day d + 1"
    with d show ?thesis by (simp add: valid_datetime_def)
  next
    assume "month d < 12" "year b = year d" "month b = month d + 1" "day b = 1"
    with d days_in_month_pos[of "year d" "month d + 1"] show ?thesis by (simp add: valid_datetime_def)
  next
    assume "year d < MAXYEAR" "year b = year d + 1" "month b = 1" "day b = 1"
    with d days_in_month_pos[of "year d + 1" 1] show ?thesis by (simp add: valid_datetime_def)
  qed
qed

lemma add_one_day_defined:
  assumes "valid_datetime d" "d \<noteq> \<lparr>year = 9999, month = 12, day = 31\<rparr>"
  shows "\<exists>b. add_one_day d = Inr b"
proof (cases "day d < days_in_month (year d) (month d) \<or> month d < 12 \<or> year d < MAXYEAR")
  case True
  then show ?thesis by (auto simp: add_one_day_def)
next
  case False
  with assms(1) have "year d = 9999" "month d = 12" "day d = 31"
    by (auto simp: valid_datetime_def MAXYEAR_def days_in_month_def)
  then have "d = \<lparr>year = 9999, month = 12, day = 31\<rparr>" by simp
  with assms(2) show ?thesis by simp
qed

lemma strftime_inj:
  assumes "valid_datetime a" "valid_datetime b"
    and "strftime p a DATE_FORMAT = strftime p b DATE_FORMAT"
  shows "a = b"
proof -
  have ra: "1 \<le> month a" "month a \<le> 12" "day a < 100" "year a < 10000"
    and rb: "1 \<le> month b" "month b \<le> 12" "day b < 100" "year b < 10000"
    using assms(1,2) days_in_month_le[of "year a" "month a"] days_in_month_le[of "year b" "month b"]
    by (auto simp: valid_datetime_def MAXYEAR_def)
  define ma where "ma = month_abbr ! (month a - 1)"
  define mb where "mb = month_abbr ! (month b - 1)"
  define ya where "ya = (if p then pad4 (year a) else str_nat (year a))"
  define yb where "yb = (if p then pad4 (year b) else str_nat (year b))"
  have la: "length ma = 3" "map lower_char ma = a_month ! (month a - 1)"
    using month_abbr_lower[OF ra(1,2)] by (simp_all add: ma_def)
  have lb: "length mb = 3" "map lower_char mb = a_month ! (month b - 1)"
    using month_abbr_lower[OF rb(1,2)] by (simp_all add: mb_def)
  have eq: "pad2 (day a) @ CHR ''-'' # ma @ CHR ''-'' # ya = pad2 (day b) @ CHR ''-'' # mb @ CHR ''-'' # yb"
    using assms(3) unfolding strftime_DATE_FORMAT ma_def mb_def ya_def yb_def .
  have l2: "length (pad2 (day a)) = length (pad2 (day b))" by (simp add: pad2_def)
  from eq l2 have d: "pad2 (day a) = pad2 (day b)" and r1: "ma @ CHR ''-'' # ya = mb @ CHR ''-'' # yb"
    by simp_all
  from r1 la(1) lb(1) have m: "ma = mb" and y: "ya = yb" by simp_all
  have "day a = py_int (pad2 (day a))" using ra(3) by (simp add: py_int_pad2)
  also have "\<dots> = day b" unfolding d using rb(3) by (simp add: py_int_pad2)
  finally have 1: "day a = day b" .
  have "month a = Suc (index_of (map lower_char ma) a_month)"
    unfolding la(2) using index_of_a_month[OF ra(1,2)] by simp
  also have "\<dots> = month b"
    unfolding m lb(2) using index_of_a_month[OF rb(1,2)] by simp
  finally have 2: "month a = month b" .
  have "year a = py_int ya" unfolding ya_def using py_int_year_text[OF ra(4)] by simp
  also have "\<dots> = year b" unfolding y yb_def using py_int_year_text[OF rb(4)] by simp
  finally have 3: "year a = year b" .
  from 1 2 3 show ?thesis by simp
qed

lemma datetime_lt_irrefl: "\<not> datetime_lt d d"
  by (simp add: datetime_lt_def)

section \<open>The paths through \<open>search_emails\<close>\<close>

lemma validate_date_range_ok:
  assumes "strptime start_date DATE_FORMAT = Inr s" "strptime end_date DATE_FORMAT = Inr e" "datetime_lt s e"
  shows "validate_date_range start_date end_date DATE_FORMAT = Inr ()"
  using assms by (simp add: validate_date_range_def datetime_ge_def)

lemma search_emails_select_raises:
  assumes "strptime start_date DATE_FORMAT = Inr s" "strptime end_date DATE_FORMAT = Inr e" "datetime_lt s e"
    and "imap lib (sent w) imap_session (SELECT mailbox) = Inl x"
  shows "search_emails lib imap_session mailbox start_date end_date w =
           (Inl x, w\<lparr>sent := sent w @ [(imap_session, SELECT mailbox)]\<rparr>)"
  unfolding search_emails_def validate_date_range_ok[OF assms(1-3)]
  by (simp add: call_def assms(4))

lemma search_emails_overflow:
  assumes "strptime start_date DATE_FORMAT = Inr s" "strptime end_date DATE_FORMAT = Inr e" "datetime_lt s e"
    and "imap lib (sent w) imap_session (SELECT mailbox) = Inr r"
    and "add_one_day e = Inl x"
  shows "search_emails lib imap_session mailbox start_date end_date w =
           (Inl x, w\<lparr>sent := sent w @ [(imap_session, SELECT mailbox)]\<rparr>)"
  unfolding search_emails_def validate_date_range_ok[OF assms(1-3)]
  by (simp add: call_def assms)

lemma search_emails_searches:
  assumes "strptime start_date DATE_FORMAT = Inr s" "strptime end_date DATE_FORMAT = Inr e" "datetime_lt s e"
    and "imap lib (sent w) imap_session (SELECT mailbox) = Inr r"
    and "add_one_day e = Inr b"
  shows "search_emails lib imap_session mailbox start_date end_date w =
     (case imap lib (sent w @ [(imap_session, SELECT mailbox)]) imap_session
             (SEARCH (search_query (strftime (year_padded lib) s DATE_FORMAT) (strftime (year_padded lib) b DATE_FORMAT))) of
        Inl x \<Rightarrow>
          (Inl x, w\<lparr>sent := sent w @ [(imap_session, SELECT mailbox),
             (imap_session, SEARCH (search_query (strftime (year_padded lib) s DATE_FORMAT) (strftime (year_padded lib) b DATE_FORMAT)))]\<rparr>)
      | Inr (typ, data) \<Rightarrow>
          if typ \<noteq> OK
          then (Inr [],
                logging ERROR (''Error searching Inbox. IMAP search did not return ''
                                 @ dquote @ ''OK'' @ dquote @ ''.'')
                  (w\<lparr>sent := sent w @ [(imap_session, SELECT mailbox),
                     (imap_session, SEARCH (search_query (strftime (year_padded lib) s DATE_FORMAT) (strftime (year_padded lib) b DATE_FORMAT)))]\<rparr>))
          else (case data_0_split data of
                  Inl x \<Rightarrow> (Inl x, w\<lparr>sent := sent w @ [(imap_session, SELECT mailbox),
                     (imap_session, SEARCH (search_query (strftime (year_padded lib) s DATE_FORMAT) (strftime (year_padded lib) b DATE_FORMAT)))]\<rparr>)
                | Inr ids \<Rightarrow> (decode_each lib ids, w\<lparr>sent := sent w @ [(imap_session, SELECT mailbox),
                     (imap_session, SEARCH (search_query (strftime (year_padded lib) s DATE_FORMAT) (strftime (year_padded lib) b DATE_FORMAT)))]\<rparr>)))"
  unfolding search_emails_def validate_date_range_ok[OF assms(1-3)]
  by (simp add: call_def assms Let_def split: sum.splits prod.splits)

section \<open>Dates used in the examples\<close>

lemma strptime_01_Mar_2024:
  "strptime ''01-Mar-2024'' DATE_FORMAT = Inr \<lparr>year = 2024, month = 3, day = 1\<rparr>"
  by code_simp

lemma strptime_04_Mar_2024:
  "strptime ''04-Mar-2024'' DATE_FORMAT = Inr \<lparr>year = 2024, month = 3, day = 4\<rparr>"
  by code_simp

lemma strptime_31_Dec_9999:
  "strptime ''31-Dec-9999'' DATE_FORMAT = Inr \<lparr>year = 9999, month = 12, day = 31\<rparr>"
  by code_simp

lemma strptime_31_Feb_2024:
  "strptime ''31-Feb-2024'' DATE_FORMAT = Inl (ValueError ''day is out of range for month'')"
  by code_simp

lemma strptime_iso:
  "strptime ''2024-03-01'' DATE_FORMAT = Inl (ValueError ''time data does not match format'')"
  by code_simp

lemma strftime_01_Mar_2024:
  "strftime False \<lparr>year = 2024, month = 3, day = Suc 0\<rparr> DATE_FORMAT = ''01-Mar-2024''"
  by code_simp

lemma strftime_05_Mar_2024:
  "strftime False \<lparr>year = 2024, month = 3, day = 5\<rparr> DATE_FORMAT = ''05-Mar-2024''"
  by code_simp

text \<open>A year below 1000: glibc writes \<open>999\<close>, which \<open>strptime\<close> does not read back as a
  year; with four digits it does.\<close>

lemma strftime_year_999:
  "strftime False \<lparr>year = 999, month = 1, day = 1\<rparr> DATE_FORMAT = ''01-Jan-999'' \<and>
   strftime True \<lparr>year = 999, month = 1, day = 1\<rparr> DATE_FORMAT = ''01-Jan-0999'' \<and>
   strptime ''01-Jan-999'' DATE_FORMAT = Inl (ValueError ''time data does not match format'') \<and>
   strptime ''01-Jan-0999'' DATE_FORMAT = Inr \<lparr>year = 999, month = 1, day = 1\<rparr>"
  by code_simp

lemma add_one_day_04_Mar_2024:
  "add_one_day \<lparr>year = 2024, month = 3, day = 4\<rparr> = Inr \<lparr>year = 2024, month = 3, day = 5\<rparr>"
  by (simp add: add_one_day_def days_in_month_def)

lemma add_one_day_max:
  "add_one_day \<lparr>year = 9999, month = 12, day = 31\<rparr>
     = Inl (OverflowError ''date value out of range'')"
  by (simp add: add_one_day_def days_in_month_def MAXYEAR_def)

lemma lt_01_04_Mar_2024:
  "datetime_lt \<lparr>year = 2024, month = 3, day = 1\<rparr> \<lparr>year = 2024, month = 3, day = 4\<rparr>"
  by (simp add: datetime_lt_def)

lemma validate_backwards:
  "validate_date_range ''04-Mar-2024'' ''01-Mar-2024'' DATE_FORMAT
     = Inl (ValueError ''start_date must be before end_date'')"
  by (simp add: validate_date_range_def strptime_01_Mar_2024 strptime_04_Mar_2024
        datetime_ge_def datetime_lt_def)

lemma demo_year_padded: "year_padded demo_lib = False"
  by (simp add: demo_lib_def)

lemma demo_select:
  "imap demo_lib (sent w0) demo_session (SELECT m) = Inr (''OK'', [BytesItem ''3''])"
  by (simp add: demo_lib_def demo_session_def)

section \<open>Claims about the email searcher\<close>

text \<open>
  C4. \<open>validate_date_range\<close> on the program's format. When both strings parse (they are
  well formed), validation succeeds if the start date is strictly before the end date
  and otherwise fails with the invalid-range error \<open>ValueError("start_date must be before
  end_date")\<close>. When either string does not parse, validation fails with the error of
  \<open>strptime\<close>, a parse error.
\<close>

theorem validate_date_range_cases:
  "(\<forall>s e. strptime start_date DATE_FORMAT = Inr s \<and> strptime end_date DATE_FORMAT = Inr e \<longrightarrow>
      validate_date_range start_date end_date DATE_FORMAT =
        (if datetime_lt s e then Inr ()
         else Inl (ValueError ''start_date must be before end_date''))) \<and>
   ((\<forall>s. strptime start_date DATE_FORMAT \<noteq> Inr s) \<or> (\<forall>e. strptime end_date DATE_FORMAT \<noteq> Inr e) \<longrightarrow>
      (\<exists>x. validate_date_range start_date end_date DATE_FORMAT = Inl x \<and> parse_error x))"
proof (intro conjI allI impI)
  fix s e
  assume "strptime start_date DATE_FORMAT = Inr s \<and> strptime end_date DATE_FORMAT = Inr e"
  then show "validate_date_range start_date end_date DATE_FORMAT =
        (if datetime_lt s e then Inr () else Inl (ValueError ''start_date must be before end_date''))"
    by (simp add: validate_date_range_def datetime_ge_def)
next
  assume a: "(\<forall>s. strptime start_date DATE_FORMAT \<noteq> Inr s) \<or> (\<forall>e. strptime end_date DATE_FORMAT \<noteq> Inr e)"
  show "\<exists>x. validate_date_range start_date end_date DATE_FORMAT = Inl x \<and> parse_error x"
  proof (cases "strptime start_date DATE_FORMAT")
    case (Inl x)
    then show ?thesis using strptime_error[OF Inl] by (simp add: validate_date_range_def)
  next
    case (Inr s)
    with a obtain x where x: "strptime end_date DATE_FORMAT = Inl x"
      by (cases "strptime end_date DATE_FORMAT") auto
    then show ?thesis using Inr strptime_error[OF x] by (simp add: validate_date_range_def)
  qed
qed

text \<open>
  The three cases on concrete dates: 1 March before 4 March 2024 is accepted, the same
  pair the other way round and a pair of equal dates are refused as a range, and a date
  in another format or 31 February is refused as a parse error.
\<close>

theorem validate_date_range_cases_witness:
  "validate_date_range ''01-Mar-2024'' ''04-Mar-2024'' DATE_FORMAT = Inr () \<and>
   validate_date_range ''04-Mar-2024'' ''01-Mar-2024'' DATE_FORMAT
     = Inl (ValueError ''start_date must be before end_date'') \<and>
   validate_date_range ''04-Mar-2024'' ''04-Mar-2024'' DATE_FORMAT
     = Inl (ValueError ''start_date must be before end_date'') \<and>
   (\<exists>x. validate_date_range ''2024-03-01'' ''04-Mar-2024'' DATE_FORMAT = Inl x \<and> parse_error x) \<and>
   (\<exists>x. validate_date_range ''01-Mar-2024'' ''31-Feb-2024'' DATE_FORMAT = Inl x \<and> parse_error x)"
  using validate_date_range_cases[of "''01-Mar-2024''" "''04-Mar-2024''"]
    validate_date_range_cases[of "''04-Mar-2024''" "''01-Mar-2024''"]
    validate_date_range_cases[of "''04-Mar-2024''" "''04-Mar-2024''"]
    validate_date_range_cases[of "''2024-03-01''" "''04-Mar-2024''"]
    validate_date_range_cases[of "''01-Mar-2024''" "''31-Feb-2024''"]
  by (simp add: strptime_01_Mar_2024 strptime_04_Mar_2024 strptime_31_Feb_2024 strptime_iso
        datetime_lt_def)

text \<open>
  C9. \<open>search_emails\<close> validates the date range before it touches the session: when
  validation fails, the call raises the error of the validation and the world is
  unchanged, so neither a select nor a search has been sent (and nothing is logged).
\<close>

theorem search_emails_validates_first:
  assumes "validate_date_range start_date end_date DATE_FORMAT = Inl e"
  shows "search_emails lib imap_session mailbox start_date end_date w = (Inl e, w)"
  using assms by (simp add: search_emails_def)

theorem search_emails_validates_first_witness:
  "validate_date_range ''04-Mar-2024'' ''01-Mar-2024'' DATE_FORMAT
     = Inl (ValueError ''start_date must be before end_date'') \<and>
   search_emails demo_lib demo_session ''INBOX'' ''04-Mar-2024'' ''01-Mar-2024'' w0
     = (Inl (ValueError ''start_date must be before end_date''), w0)"
  using search_emails_validates_first[OF validate_backwards] validate_backwards by simp

text \<open>
  C1 as the claim states it fails on the last day of the calendar. The pair 1 March 2024,
  31 December 9999 passes validation, the mailbox is selected, and then adding one day to
  the end date raises \<open>OverflowError\<close>: no search is sent, so no query has the end date
  inside its range.
\<close>

theorem search_emails_last_day_counterexample:
  "validate_date_range ''01-Mar-2024'' ''31-Dec-9999'' DATE_FORMAT = Inr () \<and>
   search_emails demo_lib demo_session ''INBOX'' ''01-Mar-2024'' ''31-Dec-9999'' w0 =
     (Inl (OverflowError ''date value out of range''),
      \<lparr>sent = [(demo_session, SELECT ''INBOX'')], logged = []\<rparr>)"
proof -
  have lt: "datetime_lt \<lparr>year = 2024, month = 3, day = 1\<rparr> \<lparr>year = 9999, month = 12, day = 31\<rparr>"
    by (simp add: datetime_lt_def)
  show ?thesis
    using validate_date_range_ok[OF strptime_01_Mar_2024 strptime_31_Dec_9999 lt]
      search_emails_overflow[OF strptime_01_Mar_2024 strptime_31_Dec_9999 lt demo_select add_one_day_max]
    by (simp add: w0_def)
qed

text \<open>
  C1, amended. For every valid date pair (both dates parse, start before end), once the
  select has returned: when the end date is not 31 December 9999, \<open>search_emails\<close>
  sends exactly one search, and its query is \<open>(SINCE "since" BEFORE "before")\<close> where
  \<open>since\<close> is the start date and \<open>before\<close> the end date plus one day, both written by
  \<open>strftime\<close> in the program's format. The text of the upper bound is never that of the
  end date: it is the next calendar day, later than the end date with no date of the
  calendar in between, so a message dated on the end date is on or after the start date
  and before the upper bound. Where the platform writes the year on four digits, or from
  the year 1000 on, both bounds parse back to these dates. When the end date is
  31 December 9999, adding one day raises \<open>OverflowError\<close> after the select and no
  search is sent.
\<close>

theorem search_emails_query_bounds:
  assumes "strptime start_date DATE_FORMAT = Inr s"
    and "strptime end_date DATE_FORMAT = Inr e"
    and "datetime_lt s e"
    and "imap lib (sent w) imap_session (SELECT mailbox) = Inr r"
  shows "(e = \<lparr>year = 9999, month = 12, day = 31\<rparr> \<longrightarrow>
            search_emails lib imap_session mailbox start_date end_date w =
              (Inl (OverflowError ''date value out of range''),
               w\<lparr>sent := sent w @ [(imap_session, SELECT mailbox)]\<rparr>)) \<and>
         (e \<noteq> \<lparr>year = 9999, month = 12, day = 31\<rparr> \<longrightarrow>
            (\<exists>b. add_one_day e = Inr b \<and>
               sent (snd (search_emails lib imap_session mailbox start_date end_date w)) =
                 sent w @ [(imap_session, SELECT mailbox),
                           (imap_session,
                            SEARCH (search_query (strftime (year_padded lib) s DATE_FORMAT)
                                                 (strftime (year_padded lib) b DATE_FORMAT)))] \<and>
               strftime (year_padded lib) b DATE_FORMAT \<noteq> strftime (year_padded lib) e DATE_FORMAT \<and>
               datetime_lt e b \<and>
               (\<forall>x. valid_datetime x \<and> datetime_lt e x \<longrightarrow> \<not> datetime_lt x b) \<and>
               (year_padded lib \<or> 1000 \<le> year s \<longrightarrow>
                  strptime (strftime (year_padded lib) s DATE_FORMAT) DATE_FORMAT = Inr s) \<and>
               (year_padded lib \<or> 1000 \<le> year b \<longrightarrow>
                  strptime (strftime (year_padded lib) b DATE_FORMAT) DATE_FORMAT = Inr b)))"
proof (intro conjI impI)
  assume "e = \<lparr>year = 9999, month = 12, day = 31\<rparr>"
  then have "add_one_day e = Inl (OverflowError ''date value out of range'')"
    by (simp add: add_one_day_max)
  from search_emails_overflow[OF assms(1-4) this]
  show "search_emails lib imap_session mailbox start_date end_date w =
          (Inl (OverflowError ''date value out of range''),
           w\<lparr>sent := sent w @ [(imap_session, SELECT mailbox)]\<rparr>)" .
next
  assume last: "e \<noteq> \<lparr>year = 9999, month = 12, day = 31\<rparr>"
  have vs: "valid_datetime s" and ve: "valid_datetime e"
    using assms(1,2) by (auto intro: strptime_valid)
  obtain b where b: "add_one_day e = Inr b"
    using add_one_day_defined[OF ve last] by blast
  have vb: "valid_datetime b" by (rule add_one_day_valid[OF ve b])
  have lt: "datetime_lt e b" by (rule add_one_day_later[OF b])
  have ne: "strftime (year_padded lib) b DATE_FORMAT \<noteq> strftime (year_padded lib) e DATE_FORMAT"
  proof
    assume "strftime (year_padded lib) b DATE_FORMAT = strftime (year_padded lib) e DATE_FORMAT"
    from strftime_inj[OF vb ve this] lt show False by (simp add: datetime_lt_irrefl)
  qed
  have snt: "sent (snd (search_emails lib imap_session mailbox start_date end_date w)) =
             sent w @ [(imap_session, SELECT mailbox),
                       (imap_session,
                        SEARCH (search_query (strftime (year_padded lib) s DATE_FORMAT)
                                             (strftime (year_padded lib) b DATE_FORMAT)))]"
    unfolding search_emails_searches[OF assms(1-4) b]
    by (simp add: logging_def split: sum.splits prod.splits)
  have ps: "year_padded lib \<or> 1000 \<le> year s \<longrightarrow>
              strptime (strftime (year_padded lib) s DATE_FORMAT) DATE_FORMAT = Inr s"
    using strptime_strftime[OF vs] by blast
  have pb: "year_padded lib \<or> 1000 \<le> year b \<longrightarrow>
              strptime (strftime (year_padded lib) b DATE_FORMAT) DATE_FORMAT = Inr b"
    using strptime_strftime[OF vb] by blast
  show "\<exists>b. add_one_day e = Inr b \<and>
               sent (snd (search_emails lib imap_session mailbox start_date end_date w)) =
                 sent w @ [(imap_session, SELECT mailbox),
                           (imap_session,
                            SEARCH (search_query (strftime (year_padded lib) s DATE_FORMAT)
                                                 (strftime (year_padded lib) b DATE_FORMAT)))] \<and>
               strftime (year_padded lib) b DATE_FORMAT \<noteq> strftime (year_padded lib) e DATE_FORMAT \<and>
               datetime_lt e b \<and>
               (\<forall>x. valid_datetime x \<and> datetime_lt e x \<longrightarrow> \<not> datetime_lt x b) \<and>
               (year_padded lib \<or> 1000 \<le> year s \<longrightarrow>
                  strptime (strftime (year_padded lib) s DATE_FORMAT) DATE_FORMAT = Inr s) \<and>
               (year_padded lib \<or> 1000 \<le> year b \<longrightarrow>
                  strptime (strftime (year_padded lib) b DATE_FORMAT) DATE_FORMAT = Inr b)"
    using b snt ne lt add_one_day_next[OF b _ ve] ps pb by blast
qed

text \<open>The dates of the program: from 1 March to 4 March 2024 the query runs from
  \<open>01-Mar-2024\<close> to \<open>05-Mar-2024\<close>, two texts that parse back to 1 March and 5 March.
  With 31 December 9999 as end date the call stops after the select.\<close>

theorem search_emails_query_bounds_witness:
  "sent (snd (search_emails demo_lib demo_session ''INBOX'' ''01-Mar-2024'' ''04-Mar-2024'' w0)) =
     [(demo_session, SELECT ''INBOX''),
      (demo_session, SEARCH (search_query ''01-Mar-2024'' ''05-Mar-2024''))] \<and>
   strptime ''05-Mar-2024'' DATE_FORMAT = Inr \<lparr>year = 2024, month = 3, day = 5\<rparr> \<and>
   search_emails demo_lib demo_session ''INBOX'' ''01-Mar-2024'' ''31-Dec-9999'' w0 =
     (Inl (OverflowError ''date value out of range''),
      \<lparr>sent = [(demo_session, SELECT ''INBOX'')], logged = []\<rparr>)"
proof -
  have ne: "\<lparr>year = 2024, month = 3, day = 4\<rparr> \<noteq> \<lparr>year = 9999, month = 12, day = 31\<rparr>"
    by simp
  have lt: "datetime_lt \<lparr>year = 2024, month = 3, day = 1\<rparr> \<lparr>year = 9999, month = 12, day = 31\<rparr>"
    by (simp add: datetime_lt_def)
  show ?thesis
    using search_emails_query_bounds[OF strptime_01_Mar_2024 strptime_04_Mar_2024
        lt_01_04_Mar_2024 demo_select, where mailbox = "''INBOX''"]
      search_emails_query_bounds[OF strptime_01_Mar_2024 strptime_31_Dec_9999
        lt demo_select, where mailbox = "''INBOX''"]
    by (auto simp: add_one_day_04_Mar_2024 strftime_01_Mar_2024 strftime_05_Mar_2024 w0_def
          demo_year_padded)
qed

text \<open>
  C2. When the answer to the search has a status other than \<open>OK\<close>, \<open>search_emails\<close> logs
  one error line and returns the empty list, no exception; when the status is \<open>OK\<close> and the
  server lists no identifier (an empty mailbox), it returns the empty list as well. The
  caller gets the same value in both cases.
\<close>

theorem search_emails_failure_looks_empty:
  assumes "strptime start_date DATE_FORMAT = Inr s"
    and "strptime end_date DATE_FORMAT = Inr e"
    and "datetime_lt s e"
    and "imap lib (sent w) imap_session (SELECT mailbox) = Inr r"
    and "add_one_day e = Inr b"
    and "imap lib (sent w @ [(imap_session, SELECT mailbox)]) imap_session
           (SEARCH (search_query (strftime (year_padded lib) s DATE_FORMAT) (strftime (year_padded lib) b DATE_FORMAT))) = Inr (typ, data)"
  shows "(typ \<noteq> OK \<longrightarrow>
            fst (search_emails lib imap_session mailbox start_date end_date w) = Inr [] \<and>
            logged (snd (search_emails lib imap_session mailbox start_date end_date w)) =
              logged w @ [(ERROR, ''Error searching Inbox. IMAP search did not return ''
                                    @ dquote @ ''OK'' @ dquote @ ''.'')]) \<and>
         (typ = OK \<and> (\<exists>rest. data = BytesItem [] # rest) \<longrightarrow>
            fst (search_emails lib imap_session mailbox start_date end_date w) = Inr [])"
  unfolding search_emails_searches[OF assms(1-5)] assms(6)
  by (auto simp: logging_def data_0_split_def split_def)

text \<open>In the double, the search of the mailbox \<open>Broken\<close> is refused and the mailbox
  \<open>Empty\<close> holds nothing: the caller sees the empty list both times.\<close>

lemma demo_search_broken:
  "imap demo_lib (sent w0 @ [(demo_session, SELECT ''Broken'')]) demo_session (SEARCH q)
     = Inr (''NO'', [BytesItem ''SEARCH failed''])"
  by (simp add: demo_lib_def demo_session_def w0_def)

lemma demo_search_empty:
  "imap demo_lib (sent w0 @ [(demo_session, SELECT ''Empty'')]) demo_session (SEARCH q)
     = Inr (''OK'', [BytesItem []])"
  by (simp add: demo_lib_def demo_session_def w0_def)

theorem search_emails_failure_looks_empty_witness:
  "fst (search_emails demo_lib demo_session ''Broken'' ''01-Mar-2024'' ''04-Mar-2024'' w0) = Inr [] \<and>
   logged (snd (search_emails demo_lib demo_session ''Broken'' ''01-Mar-2024'' ''04-Mar-2024'' w0)) =
     [(ERROR, ''Error searching Inbox. IMAP search did not return '' @ dquote @ ''OK'' @ dquote @ ''.'')] \<and>
   fst (search_emails demo_lib demo_session ''Empty'' ''01-Mar-2024'' ''04-Mar-2024'' w0) = Inr []"
  using search_emails_failure_looks_empty[OF strptime_01_Mar_2024 strptime_04_Mar_2024
      lt_01_04_Mar_2024 demo_select add_one_day_04_Mar_2024 demo_search_broken]
    search_emails_failure_looks_empty[OF strptime_01_Mar_2024 strptime_04_Mar_2024
      lt_01_04_Mar_2024 demo_select add_one_day_04_Mar_2024 demo_search_empty]
  by (simp add: OK_def w0_def)

section \<open>The loops of \<open>get_attachments_info\<close>\<close>

lemma endswith_iff: "endswith s suf \<longleftrightarrow> (\<exists>stem. s = stem @ suf)"
proof
  assume "endswith s suf"
  then have "s = take (length s - length suf) s @ suf"
    by (metis append_take_drop_id endswith_def)
  then show "\<exists>stem. s = stem @ suf" ..
next
  assume "\<exists>stem. s = stem @ suf"
  then show "endswith s suf" by (auto simp: endswith_def)
qed

lemma endswith_suffix: "endswith s suf = suffix suf s"
  by (simp add: endswith_iff suffix_def)

lemma decode_text_None:
  "decode_text lib None cs w =
     (Inr [], logging WARNING ''decode_text received None instead of string/bytes.'' w)"
  by (simp add: decode_text_def)

lemma decode_text_Some_Str: "decode_text lib (Some (Str s)) cs w = (Inr s, w)"
  by (simp add: decode_text_def)

lemma sent_logging: "sent (logging l m w) = sent w"
  by (simp add: logging_def)

lemma scan_part_result:
  "\<exists>w1. scan_part lib subj frm ext p acc w =
          (Inr (if spec_keeps ext p then acc @ [(subj, frm, text_of (filename (hdr p)))] else acc), w1)
        \<and> sent w1 = sent w"
  by (cases "filename (hdr p)")
     (auto simp: scan_part_def decode_text_None decode_text_Some_Str spec_keeps_def text_of_def sent_logging endswith_suffix)

lemma scan_parts_result:
  "\<exists>w1. scan_parts lib subj frm ext ps acc w =
          (Inr (acc @ map (\<lambda>p. (subj, frm, text_of (filename (hdr p)))) (filter (spec_keeps ext) ps)), w1)
        \<and> sent w1 = sent w"
proof (induction ps arbitrary: acc w)
  case Nil
  then show ?case by simp
next
  case (Cons p ps)
  obtain w1 where p: "scan_part lib subj frm ext p acc w =
          (Inr (if spec_keeps ext p then acc @ [(subj, frm, text_of (filename (hdr p)))] else acc), w1)"
     and s: "sent w1 = sent w"
    using scan_part_result by blast
  from Cons.IH[of "if spec_keeps ext p then acc @ [(subj, frm, text_of (filename (hdr p)))] else acc" w1]
  show ?case by (auto simp: p s)
qed

lemma scan_email_not_ok:
  assumes "imap lib (sent w) s (FETCH i ''(RFC822)'') = Inr (typ, data)" "typ \<noteq> OK"
  shows "scan_email lib s ext i acc w =
           (Inr acc, \<lparr>sent = sent w @ [(s, FETCH i ''(RFC822)'')],
                     logged = logged w @ [(INFO, ''Processing email ID: '' @ i),
                                          (ERROR, ''Failed to fetch email ID '' @ i @ ''.'')]\<rparr>)"
  using assms by (simp add: scan_email_def call_def logging_def)

lemma scan_email_ok:
  assumes "imap lib (sent w) s (FETCH i ''(RFC822)'') = Inr (OK, data)" "data_0_1 data = Inr raw"
  shows "\<exists>w1. scan_email lib s ext i acc w =
           (Inr (acc @ spec_records_of ext (message_from_bytes lib raw)), w1) \<and>
           sent w1 = sent w @ [(s, FETCH i ''(RFC822)'')]"
proof -
  let ?m = "message_from_bytes lib raw"
  let ?wa = "(logging INFO (''Processing email ID: '' @ i) w)\<lparr>sent := sent w @ [(s, FETCH i ''(RFC822)'')]\<rparr>"
  obtain w2 where d1: "decode_text lib (map_option Str (subject (hdr ?m))) ''utf-8'' ?wa = (Inr (text_of (subject (hdr ?m))), w2)"
    and s2: "sent w2 = sent ?wa"
    by (cases "subject (hdr ?m)") (auto simp: decode_text_None decode_text_Some_Str text_of_def sent_logging)
  obtain w3 where d2: "decode_text lib (map_option Str (sender (hdr ?m))) ''utf-8'' w2 = (Inr (text_of (sender (hdr ?m))), w3)"
    and s3: "sent w3 = sent w2"
    by (cases "sender (hdr ?m)") (auto simp: decode_text_None decode_text_Some_Str text_of_def sent_logging)
  obtain w4 where sp: "scan_parts lib (text_of (subject (hdr ?m))) (text_of (sender (hdr ?m))) ext (walk ?m) acc w3
      = (Inr (acc @ spec_records_of ext ?m), w4)" and s4: "sent w4 = sent w3"
    using scan_parts_result[of lib _ _ ext "walk ?m" acc w3] unfolding spec_records_of_def by blast
  have "scan_email lib s ext i acc w = (Inr (acc @ spec_records_of ext ?m), w4)"
    using assms d1 d2 sp by (simp add: scan_email_def call_def sent_logging Let_def)
  moreover have "sent w4 = sent w @ [(s, FETCH i ''(RFC822)'')]"
    using s2 s3 s4 by simp
  ultimately show ?thesis by blast
qed

lemma scan_emails_append:
  "scan_emails lib s ext (xs @ ys) acc w =
     (case scan_emails lib s ext xs acc w of
        (Inl e, w1) \<Rightarrow> (Inl e, w1)
      | (Inr acc1, w1) \<Rightarrow> scan_emails lib s ext ys acc1 w1)"
  by (induction xs arbitrary: acc w) (auto split: prod.splits sum.splits)

lemma scan_email_cases:
  assumes "fst (scan_email lib s ext i acc w) = Inr acc'"
  shows "acc' = acc \<or> (\<exists>raw. acc' = acc @ spec_records_of ext (message_from_bytes lib raw))"
proof (cases "imap lib (sent w) s (FETCH i ''(RFC822)'')")
  case (Inl e)
  with assms show ?thesis by (simp add: scan_email_def call_def sent_logging)
next
  case (Inr r)
  obtain t dat where r: "r = (t, dat)" by (cases r)
  show ?thesis
  proof (cases "t = OK")
    case False
    from scan_email_not_ok[OF Inr[unfolded r] False] assms show ?thesis by simp
  next
    case True
    note ok = Inr[unfolded r True]
    show ?thesis
    proof (cases "data_0_1 dat")
      case (Inl e)
      with assms ok show ?thesis by (simp add: scan_email_def call_def sent_logging)
    next
      case (Inr raw)
      from scan_email_ok[OF ok Inr, of ext acc] assms show ?thesis by auto
    qed
  qed
qed

lemma scan_emails_extends:
  "fst (scan_emails lib s ext ids acc w) = Inr out \<Longrightarrow> \<exists>more. out = acc @ more"
proof (induction ids arbitrary: acc w)
  case Nil
  then show ?case by simp
next
  case (Cons i ids)
  show ?case
  proof (cases "scan_email lib s ext i acc w")
    case (Pair r w1)
    show ?thesis
    proof (cases r)
      case (Inl e)
      with Pair Cons.prems show ?thesis by simp
    next
      case (Inr acc1)
      with Pair have "fst (scan_email lib s ext i acc w) = Inr acc1" by simp
      from scan_email_cases[OF this] obtain m1 where m1: "acc1 = acc @ m1" by auto
      from Cons.prems Pair Inr have "fst (scan_emails lib s ext ids acc1 w1) = Inr out" by simp
      from Cons.IH[OF this] m1 show ?thesis by auto
    qed
  qed
qed

lemma spec_records_of_names:
  assumes "(subj, frm, file_name) \<in> set (spec_records_of ext m)"
  shows "file_name \<noteq> [] \<and> suffix ext file_name"
  using assms by (auto simp: spec_records_of_def spec_keeps_def text_of_def split: option.splits)

lemma scan_emails_names:
  assumes "fst (scan_emails lib s ext ids acc w) = Inr out"
    and "\<forall>(subj, frm, file_name) \<in> set acc. file_name \<noteq> [] \<and> suffix ext file_name"
  shows "\<forall>(subj, frm, file_name) \<in> set out. file_name \<noteq> [] \<and> suffix ext file_name"
  using assms
proof (induction ids arbitrary: acc w)
  case Nil
  then show ?case by simp
next
  case (Cons i ids)
  show ?case
  proof (cases "scan_email lib s ext i acc w")
    case (Pair r w1)
    show ?thesis
    proof (cases r)
      case (Inl e)
      with Pair Cons.prems show ?thesis by simp
    next
      case (Inr acc1)
      with Pair have "fst (scan_email lib s ext i acc w) = Inr acc1" by simp
      from scan_email_cases[OF this] Cons.prems(2)
      have "\<forall>(subj, frm, file_name) \<in> set acc1. file_name \<noteq> [] \<and> suffix ext file_name"
        by (auto dest: spec_records_of_names)
      moreover from Cons.prems Pair Inr have "fst (scan_emails lib s ext ids acc1 w1) = Inr out" by simp
      ultimately show ?thesis by (rule Cons.IH[rotated])
    qed
  qed
qed

lemma fst_get_attachments_info:
  "fst (get_attachments_info lib s ids ext w) = fst (scan_emails lib s ext ids [] w)"
  by (simp add: get_attachments_info_def split: prod.splits sum.splits)

text \<open>The loops only ever add to the log and to the calls sent.\<close>

lemma logged_logging: "logged (logging l m w) = logged w @ [(l, m)]"
  by (simp add: logging_def)

lemma decode_text_Str_grows:
  "prefix (logged w) (logged (snd (decode_text lib (map_option Str x) cs w))) \<and>
   sent (snd (decode_text lib (map_option Str x) cs w)) = sent w"
  by (cases x) (simp_all add: decode_text_None decode_text_Some_Str logging_def)

lemma scan_part_grows:
  "prefix (logged w) (logged (snd (scan_part lib subj frm ext p acc w))) \<and>
   sent (snd (scan_part lib subj frm ext p acc w)) = sent w"
  by (cases "filename (hdr p)")
     (auto simp: scan_part_def decode_text_None decode_text_Some_Str logging_def)

lemma scan_parts_grows:
  "prefix (logged w) (logged (snd (scan_parts lib subj frm ext ps acc w))) \<and>
   sent (snd (scan_parts lib subj frm ext ps acc w)) = sent w"
proof (induction ps arbitrary: acc w)
  case Nil
  then show ?case by simp
next
  case (Cons p ps)
  obtain r w1 where p: "scan_part lib subj frm ext p acc w = (r, w1)"
    by (cases "scan_part lib subj frm ext p acc w")
  have g: "prefix (logged w) (logged w1)" "sent w1 = sent w"
    using scan_part_grows[of w lib subj frm ext p acc] by (simp_all add: p)
  show ?case
  proof (cases r)
    case (Inl e)
    with p g show ?thesis by simp
  next
    case (Inr acc1)
    from Cons.IH[where acc = acc1 and w = w1] g p Inr show ?thesis
      by (auto intro: prefix_order.trans)
  qed
qed

lemma scan_email_grows:
  "prefix (logged w @ [(INFO, ''Processing email ID: '' @ i)])
          (logged (snd (scan_email lib s ext i acc w))) \<and>
   sent (snd (scan_email lib s ext i acc w)) = sent w @ [(s, FETCH i ''(RFC822)'')]"
proof (cases "imap lib (sent w) s (FETCH i ''(RFC822)'')")
  case (Inl e)
  then show ?thesis by (simp add: scan_email_def call_def logging_def)
next
  case (Inr r)
  obtain t dat where r: "r = (t, dat)" by (cases r)
  show ?thesis
  proof (cases "t = OK")
    case False
    from scan_email_not_ok[OF Inr[unfolded r] False] show ?thesis by simp
  next
    case True
    note ok = Inr[unfolded r True]
    show ?thesis
    proof (cases "data_0_1 dat")
      case (Inl e)
      with ok show ?thesis by (simp add: scan_email_def call_def logging_def)
    next
      case (Inr raw)
      let ?m = "message_from_bytes lib raw"
      let ?wa = "(logging INFO (''Processing email ID: '' @ i) w)\<lparr>sent := sent w @ [(s, FETCH i ''(RFC822)'')]\<rparr>"
      obtain r2 w2 where d1: "decode_text lib (map_option Str (subject (hdr ?m))) ''utf-8'' ?wa = (r2, w2)"
        by (cases "decode_text lib (map_option Str (subject (hdr ?m))) ''utf-8'' ?wa")
      have g2: "prefix (logged ?wa) (logged w2)" "sent w2 = sent ?wa"
        using decode_text_Str_grows[of ?wa lib "subject (hdr ?m)" "''utf-8''"] unfolding d1 by simp_all
      show ?thesis
      proof (cases r2)
        case (Inl e)
        with ok Inr d1 g2 show ?thesis
          by (simp add: scan_email_def call_def Let_def logged_logging sent_logging)
      next
        case subj: (Inr sb)
        obtain r3 w3 where d2: "decode_text lib (map_option Str (sender (hdr ?m))) ''utf-8'' w2 = (r3, w3)"
          by (cases "decode_text lib (map_option Str (sender (hdr ?m))) ''utf-8'' w2")
        have g3: "prefix (logged w2) (logged w3)" "sent w3 = sent w2"
          using decode_text_Str_grows[of w2 lib "sender (hdr ?m)" "''utf-8''"] unfolding d2 by simp_all
        show ?thesis
        proof (cases r3)
          case (Inl e)
          with ok Inr d1 subj d2 g2 g3 show ?thesis
            by (auto simp: scan_email_def call_def Let_def logged_logging sent_logging
                     intro: prefix_order.trans)
        next
          case frm: (Inr fr)
          have g4: "prefix (logged w3) (logged (snd (scan_parts lib sb fr ext (walk ?m) acc w3)))"
              "sent (snd (scan_parts lib sb fr ext (walk ?m) acc w3)) = sent w3"
            using scan_parts_grows[of w3 lib sb fr ext "walk ?m" acc] by simp_all
          have e: "scan_email lib s ext i acc w = scan_parts lib sb fr ext (walk ?m) acc w3"
            using ok Inr d1 subj d2 frm by (simp add: scan_email_def call_def Let_def sent_logging)
          have "prefix (logged ?wa) (logged (snd (scan_parts lib sb fr ext (walk ?m) acc w3)))"
            using g2(1) g3(1) g4(1) by (auto intro: prefix_order.trans)
          then show ?thesis unfolding e using g2(2) g3(2) g4(2) by (simp add: logged_logging sent_logging)
        qed
      qed
    qed
  qed
qed

lemma scan_emails_grows:
  "prefix (logged w) (logged (snd (scan_emails lib s ext ids acc w))) \<and>
   prefix (sent w) (sent (snd (scan_emails lib s ext ids acc w)))"
proof (induction ids arbitrary: acc w)
  case Nil
  then show ?case by simp
next
  case (Cons i ids)
  obtain r w1 where p: "scan_email lib s ext i acc w = (r, w1)"
    by (cases "scan_email lib s ext i acc w")
  have g: "prefix (logged w) (logged w1)" "prefix (sent w) (sent w1)"
    using scan_email_grows[of w i lib s ext acc] by (auto simp: p dest: append_prefixD)
  show ?case
  proof (cases r)
    case (Inl e)
    with p g show ?thesis by simp
  next
    case (Inr acc1)
    from Cons.IH[where acc = acc1 and w = w1] g p Inr show ?thesis
      by (auto intro: prefix_order.trans)
  qed
qed

lemma get_attachments_info_scan_emails:
  "get_attachments_info lib s ids ext w =
     (case scan_emails lib s ext ids [] w of
        (Inl e, w1) \<Rightarrow> (Inl e, w1)
      | (Inr infos, w1) \<Rightarrow>
          (Inr infos, logging INFO (''Completed processing emails. Found ''
                                     @ str_nat (length infos) @ '' attachments.'') w1))"
  by (simp add: get_attachments_info_def)

lemma snd_get_attachments_info_grows:
  "prefix (logged (snd (scan_emails lib s ext ids [] w))) (logged (snd (get_attachments_info lib s ids ext w))) \<and>
   sent (snd (get_attachments_info lib s ids ext w)) = sent (snd (scan_emails lib s ext ids [] w))"
  by (auto simp: get_attachments_info_def logging_def split: prod.splits sum.splits)

text \<open>The loop tests the status of the answer and nothing else: a fetch that raises, or
  an answer \<open>OK\<close> that carries no message, is not caught and ends the batch.\<close>

lemma fetch_raises_aborts:
  assumes "imap lib (sent w) s (FETCH i ''(RFC822)'') = Inl x"
  shows "fst (scan_emails lib s ext (i # ids) acc w) = Inl x"
  using assms by (simp add: scan_email_def call_def logging_def)

lemma fetch_without_message_aborts:
  assumes "imap lib (sent w) s (FETCH i ''(RFC822)'') = Inr (OK, [NoneItem])"
  shows "fst (scan_emails lib s ext (i # ids) acc w)
           = Inl (TypeError ''NoneType object is not subscriptable'')"
  using assms by (simp add: scan_email_def call_def logging_def data_0_1_def)

section \<open>Claims about the attachment scanner\<close>

lemma demo_fetch_1:
  "imap demo_lib h demo_session (FETCH ''1'' ''(RFC822)'')
     = Inr (OK, [TupleItem [''1 (RFC822 {4}'', ''MSG1''], BytesItem '')''])"
  by (simp add: demo_lib_def demo_session_def OK_def)

lemma demo_fetch_2:
  "imap demo_lib h demo_session (FETCH ''2'' ''(RFC822)'') = Inr (''NO'', [BytesItem ''FETCH failed''])"
  by (simp add: demo_lib_def demo_session_def)

lemma demo_fetch_3:
  "imap demo_lib h demo_session (FETCH ''3'' ''(RFC822)'')
     = Inr (OK, [TupleItem [''3 (RFC822 {4}'', ''MSG3''], BytesItem '')''])"
  by (simp add: demo_lib_def demo_session_def OK_def)

lemma demo_data_1: "data_0_1 [TupleItem [''1 (RFC822 {4}'', ''MSG1''], BytesItem '')''] = Inr ''MSG1''"
  by (simp add: data_0_1_def)

lemma demo_data_3: "data_0_1 [TupleItem [''3 (RFC822 {4}'', ''MSG3''], BytesItem '')''] = Inr ''MSG3''"
  by (simp add: data_0_1_def)

lemma demo_records_1_pdf:
  "spec_records_of ''.pdf'' (message_from_bytes demo_lib ''MSG1'')
     = [(''Invoice March'', ''billing@example.com'', ''invoice.pdf'')]"
  by (simp add: spec_records_of_def spec_keeps_def text_of_def demo_lib_def
        demo_message_from_bytes_def demo_message_1_def plain_part_def attached_def
        suffix_to_prefix)

lemma demo_records_1_docx:
  "spec_records_of ''.docx'' (message_from_bytes demo_lib ''MSG1'') = []"
  by (simp add: spec_records_of_def spec_keeps_def text_of_def demo_lib_def
        demo_message_from_bytes_def demo_message_1_def plain_part_def attached_def
        suffix_to_prefix)

lemma demo_records_3_pdf:
  "spec_records_of ''.pdf'' (message_from_bytes demo_lib ''MSG3'')
     = [([], ''team@example.com'', ''report.pdf'')]"
  by (simp add: spec_records_of_def spec_keeps_def text_of_def demo_lib_def
        demo_message_from_bytes_def demo_message_3_def plain_part_def attached_def
        suffix_to_prefix)

text \<open>
  C5. For a message that is fetched with status \<open>OK\<close>, \<open>get_attachments_info\<close> returns
  exactly the triples of the specification's rule: one triple (subject, sender, file
  name) for every part of the walk that is no multipart container, has a
  content-disposition header, and has a file name that is present, not empty and ends
  with the extension, compared exactly; no triple for any other part.
\<close>
theorem get_attachments_info_one_message:
  assumes "imap lib (sent w) imap_session (FETCH email_id ''(RFC822)'') = Inr (OK, data)"
    and "data_0_1 data = Inr raw"
  shows "fst (get_attachments_info lib imap_session [email_id] file_extension w) =
           Inr (spec_records_of file_extension (message_from_bytes lib raw))"
proof -
  obtain w1 where "scan_email lib imap_session file_extension email_id [] w =
     (Inr ([] @ spec_records_of file_extension (message_from_bytes lib raw)), w1)"
    using scan_email_ok[OF assms] by blast
  then show ?thesis by (simp add: fst_get_attachments_info)
qed

text \<open>Message 1 holds \<open>invoice.pdf\<close>: the filter \<open>.pdf\<close> gives that one record, the filter
  \<open>.docx\<close> none. In message 3 the filter \<open>.pdf\<close> keeps \<open>report.pdf\<close> and not
  \<open>SCAN.PDF\<close>.\<close>

theorem get_attachments_info_one_message_witness:
  "fst (get_attachments_info demo_lib demo_session [''1''] ''.pdf'' w0)
     = Inr [(''Invoice March'', ''billing@example.com'', ''invoice.pdf'')] \<and>
   fst (get_attachments_info demo_lib demo_session [''1''] ''.docx'' w0) = Inr [] \<and>
   fst (get_attachments_info demo_lib demo_session [''3''] ''.pdf'' w0)
     = Inr [([], ''team@example.com'', ''report.pdf'')]"
  using get_attachments_info_one_message[OF demo_fetch_1 demo_data_1, where w = w0 and file_extension = "''.pdf''"]
    get_attachments_info_one_message[OF demo_fetch_1 demo_data_1, where w = w0 and file_extension = "''.docx''"]
    get_attachments_info_one_message[OF demo_fetch_3 demo_data_3, where w = w0 and file_extension = "''.pdf''"]
  by (simp add: demo_records_1_pdf demo_records_1_docx demo_records_3_pdf)

text \<open>
  C3. A fetch failure is a fetch answered with a status other than \<open>OK\<close>, the test the
  loop makes. When the fetch of one identifier fails, that identifier is logged (the line
  that it is processed, then the error line that its fetch failed), it adds no record, and
  the batch goes on: the loop over the whole list is the loop over the identifiers after
  the failed one, started from the records \<open>found\<close> for the identifiers before it and
  from the world in which the fetch was sent and the two lines were logged. So the
  result of \<open>get_attachments_info\<close> is the result of that remaining loop, the two log
  lines and the fetch are in the final world, and the records found before stay, in
  order, at the head of whatever is returned.
\<close>

theorem fetch_failure_is_isolated:
  assumes "scan_emails lib imap_session file_extension before [] w = (Inr found, w1)"
    and "imap lib (sent w1) imap_session (FETCH bad ''(RFC822)'') = Inr (typ, data)"
    and "typ \<noteq> OK"
  shows "scan_emails lib imap_session file_extension (before @ bad # after) [] w =
           scan_emails lib imap_session file_extension after found
             \<lparr>sent = sent w1 @ [(imap_session, FETCH bad ''(RFC822)'')],
              logged = logged w1 @ [(INFO, ''Processing email ID: '' @ bad),
                                    (ERROR, ''Failed to fetch email ID '' @ bad @ ''.'')]\<rparr> \<and>
         fst (get_attachments_info lib imap_session (before @ bad # after) file_extension w) =
           fst (scan_emails lib imap_session file_extension after found
                  \<lparr>sent = sent w1 @ [(imap_session, FETCH bad ''(RFC822)'')],
                   logged = logged w1 @ [(INFO, ''Processing email ID: '' @ bad),
                                         (ERROR, ''Failed to fetch email ID '' @ bad @ ''.'')]\<rparr>) \<and>
         prefix (logged w1 @ [(INFO, ''Processing email ID: '' @ bad),
                              (ERROR, ''Failed to fetch email ID '' @ bad @ ''.'')])
                (logged (snd (get_attachments_info lib imap_session (before @ bad # after)
                                file_extension w))) \<and>
         prefix (sent w1 @ [(imap_session, FETCH bad ''(RFC822)'')])
                (sent (snd (get_attachments_info lib imap_session (before @ bad # after)
                              file_extension w))) \<and>
         (\<forall>infos. fst (get_attachments_info lib imap_session (before @ bad # after) file_extension w)
                   = Inr infos \<longrightarrow> (\<exists>more. infos = found @ more))"
proof -
  let ?w2 = "\<lparr>sent = sent w1 @ [(imap_session, FETCH bad ''(RFC822)'')],
              logged = logged w1 @ [(INFO, ''Processing email ID: '' @ bad),
                                    (ERROR, ''Failed to fetch email ID '' @ bad @ ''.'')]\<rparr>"
  let ?all = "before @ bad # after"
  have eq: "scan_emails lib imap_session file_extension ?all [] w =
        scan_emails lib imap_session file_extension after found ?w2"
    by (simp add: scan_emails_append assms(1) scan_email_not_ok[OF assms(2,3)])
  have g: "prefix (logged ?w2) (logged (snd (scan_emails lib imap_session file_extension after found ?w2)))"
      "prefix (sent ?w2) (sent (snd (scan_emails lib imap_session file_extension after found ?w2)))"
    using scan_emails_grows[of ?w2 lib imap_session file_extension after found] by simp_all
  have h: "prefix (logged (snd (scan_emails lib imap_session file_extension ?all [] w)))
                  (logged (snd (get_attachments_info lib imap_session ?all file_extension w)))"
      "sent (snd (get_attachments_info lib imap_session ?all file_extension w)) =
         sent (snd (scan_emails lib imap_session file_extension ?all [] w))"
    using snd_get_attachments_info_grows[of lib imap_session file_extension ?all w] by simp_all
  have l: "prefix (logged ?w2) (logged (snd (get_attachments_info lib imap_session ?all file_extension w)))"
    using g(1) h(1) unfolding eq by (rule prefix_order.trans)
  have st: "prefix (sent ?w2) (sent (snd (get_attachments_info lib imap_session ?all file_extension w)))"
    using g(2) unfolding h(2) eq .
  have ex: "\<exists>more. infos = found @ more"
    if "fst (scan_emails lib imap_session file_extension after found ?w2) = Inr infos" for infos
    using scan_emails_extends[OF that] .
  show ?thesis
    using eq l st ex by (simp add: fst_get_attachments_info)
qed

lemma demo_scan_1:
  "scan_emails demo_lib demo_session ''.pdf'' [''1''] [] w0 =
     (Inr [(''Invoice March'', ''billing@example.com'', ''invoice.pdf'')],
      \<lparr>sent = [(demo_session, FETCH ''1'' ''(RFC822)'')],
       logged = [(INFO, ''Processing email ID: 1''), (INFO, ''Found attachment: invoice.pdf'')]\<rparr>)"
  by code_simp

lemma demo_scan_3:
  "fst (scan_emails demo_lib demo_session ''.pdf'' [''3'']
          [(''Invoice March'', ''billing@example.com'', ''invoice.pdf'')] w) =
     Inr [(''Invoice March'', ''billing@example.com'', ''invoice.pdf''),
          ([], ''team@example.com'', ''report.pdf'')]"
proof -
  obtain w1 where "scan_email demo_lib demo_session ''.pdf'' ''3''
        [(''Invoice March'', ''billing@example.com'', ''invoice.pdf'')] w =
     (Inr ([(''Invoice March'', ''billing@example.com'', ''invoice.pdf'')]
            @ spec_records_of ''.pdf'' (message_from_bytes demo_lib ''MSG3'')), w1)"
    using scan_email_ok[OF demo_fetch_3 demo_data_3] by blast
  then show ?thesis by (simp add: demo_records_3_pdf)
qed

text \<open>Of the three messages of the double the second cannot be fetched: the first and
  the third still give their records.\<close>

theorem fetch_failure_is_isolated_witness:
  "fst (get_attachments_info demo_lib demo_session [''1'', ''2'', ''3''] ''.pdf'' w0) =
     Inr [(''Invoice March'', ''billing@example.com'', ''invoice.pdf''),
          ([], ''team@example.com'', ''report.pdf'')] \<and>
   prefix [(INFO, ''Processing email ID: 1''), (INFO, ''Found attachment: invoice.pdf''),
           (INFO, ''Processing email ID: 2''), (ERROR, ''Failed to fetch email ID 2.'')]
          (logged (snd (get_attachments_info demo_lib demo_session [''1'', ''2'', ''3'']
                          ''.pdf'' w0))) \<and>
   prefix [(demo_session, FETCH ''1'' ''(RFC822)''), (demo_session, FETCH ''2'' ''(RFC822)'')]
          (sent (snd (get_attachments_info demo_lib demo_session [''1'', ''2'', ''3'']
                        ''.pdf'' w0)))"
proof -
  have ne: "''NO'' \<noteq> OK" by (simp add: OK_def)
  show ?thesis
    using fetch_failure_is_isolated[OF demo_scan_1 demo_fetch_2 ne, where after = "[''3'']"]
    by (simp add: demo_scan_3 del: scan_emails.simps)
qed

text \<open>
  C10. Every triple that \<open>get_attachments_info\<close> returns has a file name that is not
  empty and ends with the extension; so a part whose file name is absent or empty gives
  no record.
\<close>
theorem get_attachments_info_file_names:
  assumes "fst (get_attachments_info lib imap_session email_ids file_extension w) = Inr infos"
    and "(subj, frm, file_name) \<in> set infos"
  shows "file_name \<noteq> [] \<and> (\<exists>stem. file_name = stem @ file_extension)"
proof -
  have "fst (scan_emails lib imap_session file_extension email_ids [] w) = Inr infos"
    using assms(1) by (simp add: fst_get_attachments_info)
  from scan_emails_names[OF this] assms(2) show ?thesis by (auto simp: suffix_def)
qed

lemma demo_scan_13:
  "fst (get_attachments_info demo_lib demo_session [''1'', ''3''] ''.pdf'' w0) =
     Inr [(''Invoice March'', ''billing@example.com'', ''invoice.pdf''),
          ([], ''team@example.com'', ''report.pdf'')]"
proof -
  have "scan_emails demo_lib demo_session ''.pdf'' ([''1''] @ [''3'']) [] w0 =
          scan_emails demo_lib demo_session ''.pdf'' [''3'']
            [(''Invoice March'', ''billing@example.com'', ''invoice.pdf'')]
            \<lparr>sent = [(demo_session, FETCH ''1'' ''(RFC822)'')],
             logged = [(INFO, ''Processing email ID: 1''),
                       (INFO, ''Found attachment: invoice.pdf'')]\<rparr>"
    unfolding scan_emails_append demo_scan_1 by simp
  then show ?thesis
    by (simp add: fst_get_attachments_info demo_scan_3 del: scan_emails.simps)
qed

theorem get_attachments_info_file_names_witness:
  "''report.pdf'' \<noteq> [] \<and> (\<exists>stem. ''report.pdf'' = stem @ ''.pdf'')"
  using get_attachments_info_file_names[OF demo_scan_13,
      where subj = "[]" and frm = "''team@example.com''" and file_name = "''report.pdf''"]
  by simp

section \<open>Claims about the session manager and the decoder\<close>

text \<open>
  C6. \<open>connect_to_imap_server\<close> catches \<open>imaplib.IMAP4.error\<close> only. When the host cannot
  be reached the constructor raises an \<open>OSError\<close>, which is no \<open>IMAP4.error\<close>: the call
  returns neither a session nor \<open>None\<close>, the exception reaches the caller, and nothing is
  logged. The docstring of the function promises \<open>None\<close> whenever connection and login
  are not both successful.
\<close>
theorem connect_to_imap_server_unreachable:
  "connect_to_imap_server demo_lib ''unreachable.invalid'' ''user'' ''secret'' w0 =
     (Inl (OSError ''[Errno -2] Name or service not known''),
      \<lparr>sent = [(IMAP4_SSL ''unreachable.invalid'', CONNECT)], logged = []\<rparr>)"
  by (simp add: connect_to_imap_server_def call_def demo_lib_def w0_def except_IMAP4_error_def)

text \<open>When the library raises nothing but \<open>IMAP4.error\<close>, the call does return a
  session or \<open>None\<close>.\<close>

lemma connect_to_imap_server_handled:
  assumes "\<forall>e. imap lib (sent w) (IMAP4_SSL server) CONNECT = Inl e \<longrightarrow> (\<exists>m. e = IMAP4_error m)"
    and "\<forall>e. imap lib (sent w @ [(IMAP4_SSL server, CONNECT)]) (IMAP4_SSL server)
               (LOGIN username password) = Inl e \<longrightarrow> (\<exists>m. e = IMAP4_error m)"
  shows "fst (connect_to_imap_server lib server username password w) = Inr None \<or>
         fst (connect_to_imap_server lib server username password w) = Inr (Some (IMAP4_SSL server))"
  using assms
  by (auto simp: connect_to_imap_server_def call_def except_IMAP4_error_def Let_def
           split: sum.splits prod.splits exn.splits)

text \<open>
  C7 as the claim states it fails when the logout itself raises: on a session whose
  connection is lost, \<open>close_imap_session\<close> passes the exception of \<open>logout\<close> on to
  its caller.
\<close>
theorem close_imap_session_flaky_counterexample:
  "close_imap_session demo_lib (Some (IMAP4_SSL ''flaky.example'')) w0 =
     (Inl (IMAP4_error ''socket error: EOF''),
      \<lparr>sent = [(IMAP4_SSL ''flaky.example'', LOGOUT)], logged = []\<rparr>)"
  by (simp add: close_imap_session_def call_def demo_lib_def w0_def)

text \<open>
  C7, amended. \<open>close_imap_session\<close> does nothing when the session is absent. When a
  session is present it calls \<open>logout\<close> once and logs nothing; whatever response
  \<open>logout\<close> returns, of any status, is dropped and the call returns normally; an
  exception raised by \<open>logout\<close> is not caught and reaches the caller.
\<close>

theorem close_imap_session_cases:
  "close_imap_session lib None w = (Inr (), w) \<and>
   snd (close_imap_session lib (Some s) w) = w\<lparr>sent := sent w @ [(s, LOGOUT)]\<rparr> \<and>
   (\<forall>r. imap lib (sent w) s LOGOUT = Inr r \<longrightarrow>
      fst (close_imap_session lib (Some s) w) = Inr ()) \<and>
   (\<forall>e. imap lib (sent w) s LOGOUT = Inl e \<longrightarrow>
      fst (close_imap_session lib (Some s) w) = Inl e)"
  by (auto simp: close_imap_session_def call_def split: sum.splits)

theorem close_imap_session_cases_witness:
  "fst (close_imap_session demo_lib (Some demo_session) w0) = Inr () \<and>
   fst (close_imap_session demo_lib (Some (IMAP4_SSL ''flaky.example'')) w0)
     = Inl (IMAP4_error ''socket error: EOF'')"
  using close_imap_session_cases[of demo_lib w0 demo_session]
    close_imap_session_cases[of demo_lib w0 "IMAP4_SSL ''flaky.example''"]
  by (simp add: demo_lib_def demo_session_def w0_def)

text \<open>
  C8 as the claim states it fails for a default charset that Python does not know: the
  fallback decode runs inside the exception handler, and its \<open>LookupError\<close> leaves
  \<open>decode_text\<close>.
\<close>
theorem decode_text_unknown_charset_counterexample:
  "fst (decode_text demo_lib (Some (Bytes ''abc'')) ''bogus'' w0)
     = Inl (LookupError ''unknown encoding: bogus'')"
  by (simp add: decode_text_def demo_lib_def demo_bytes_decode_def)

text \<open>
  C8, amended. \<open>decode_text\<close> returns the empty string for an absent input and a string
  input unchanged. On a bytes input it returns the decoded header when header decoding
  succeeds, and when header decoding raises it returns what decoding the bytes under the
  default charset with replacement gives. So with a default charset under which every
  bytes value decodes with replacement, \<open>decode_text\<close> raises for no input.
\<close>

theorem decode_text_cases:
  "fst (decode_text lib None default_charset w) = Inr [] \<and>
   fst (decode_text lib (Some (Str s)) default_charset w) = Inr s \<and>
   (\<forall>t. header_text lib b = Inr t \<longrightarrow>
      fst (decode_text lib (Some (Bytes b)) default_charset w) = Inr t) \<and>
   (\<forall>e. header_text lib b = Inl e \<longrightarrow>
      fst (decode_text lib (Some (Bytes b)) default_charset w)
        = bytes_decode lib b default_charset replace) \<and>
   ((\<forall>b'. \<exists>t. bytes_decode lib b' default_charset replace = Inr t) \<longrightarrow>
      (\<forall>arg. \<exists>t. fst (decode_text lib arg default_charset w) = Inr t))"
proof (intro conjI allI impI)
  fix arg
  assume tot: "\<forall>b'. \<exists>t. bytes_decode lib b' default_charset replace = Inr t"
  show "\<exists>t. fst (decode_text lib arg default_charset w) = Inr t"
  proof (cases arg)
    case None
    then show ?thesis by (simp add: decode_text_def)
  next
    case (Some v)
    show ?thesis
    proof (cases v)
      case (Str x)
      with Some show ?thesis by (simp add: decode_text_def)
    next
      case (Bytes x)
      from tot obtain t where "bytes_decode lib x default_charset replace = Inr t" by blast
      with Some Bytes show ?thesis by (simp add: decode_text_def split: sum.splits)
    qed
  qed
qed (simp_all add: decode_text_def)

theorem decode_text_cases_witness:
  "fst (decode_text demo_lib None ''latin-1'' w0) = Inr [] \<and>
   fst (decode_text demo_lib (Some (Str ''Invoice'')) ''latin-1'' w0) = Inr ''Invoice'' \<and>
   fst (decode_text demo_lib (Some (Bytes ''=?bad?='')) ''latin-1'' w0) = Inr ''=?bad?='' \<and>
   (\<forall>arg. \<exists>t. fst (decode_text demo_lib arg ''latin-1'' w0) = Inr t)"
proof -
  have tot: "\<forall>b'. \<exists>t. bytes_decode demo_lib b' ''latin-1'' replace = Inr t"
    by (simp add: demo_lib_def demo_bytes_decode_def)
  have h: "header_text demo_lib ''=?bad?=''
             = Inl (TypeError ''cannot use a string pattern on a bytes-like object'')"
    by (simp add: demo_lib_def)
  show ?thesis
    using decode_text_cases[of demo_lib "''latin-1''" w0 "''Invoice''" "''=?bad?=''"] tot h
    by (simp add: demo_lib_def demo_bytes_decode_def)
qed

end
